theory Spec2Isabelle
  imports Main "HOL-Library.Sublist" "HOL-Library.AList"
begin

section \<open>JavaScript strings and arrays\<close>

text \<open>
  A JavaScript string is modelled as a \<^typ>\<open>string\<close>: one \<^typ>\<open>char\<close> per code unit
  (code units below 256). The operations below are the library functions the sanitizer
  calls: \<^verbatim>\<open>String.prototype.trim\<close>, \<^verbatim>\<open>String.prototype.split\<close> with a string
  separator, \<^verbatim>\<open>Array.prototype.join\<close>, \<^verbatim>\<open>slice(0, n)\<close> and the
  \<^verbatim>\<open>Array.from(new Set(xs))\<close> idiom.
\<close>

definition isWhiteSpace :: "char \<Rightarrow> bool" where
  "isWhiteSpace c =
     (c = CHR 0x09 \<or> c = CHR 0x0A \<or> c = CHR 0x0B \<or> c = CHR 0x0C \<or> c = CHR 0x0D
      \<or> c = CHR 0x20 \<or> c = CHR 0xA0)"

definition trim :: "string \<Rightarrow> string" where
  "trim s = rev (dropWhile isWhiteSpace (rev (dropWhile isWhiteSpace s)))"

text \<open>
  \<^verbatim>\<open>s.split(sep)\<close> for a non-empty separator scans from the left and cuts at every
  occurrence that starts at or after the end of the previous one; \<open>acc\<close> is the part
  being collected. With the empty separator the string is cut into its code units.
\<close>

function splitFrom :: "string \<Rightarrow> string \<Rightarrow> string \<Rightarrow> string list" where
  "splitFrom sep acc [] = [acc]"
| "splitFrom sep acc (c # cs) =
     (if sep \<noteq> [] \<and> prefix sep (c # cs)
      then acc # splitFrom sep [] (drop (length sep) (c # cs))
      else splitFrom sep (acc @ [c]) cs)"
  by pat_completeness auto
termination
  by (relation "measure (\<lambda>(sep, acc, s). length s)") auto

definition split :: "string \<Rightarrow> string \<Rightarrow> string list" where
  "split s sep = (if sep = [] then map (\<lambda>c. [c]) s else splitFrom sep [] s)"

fun join :: "string \<Rightarrow> string list \<Rightarrow> string" where
  "join sep [] = []"
| "join sep [x] = x"
| "join sep (x # y # ys) = x @ sep @ join sep (y # ys)"

text \<open>\<^verbatim>\<open>xs.slice(0, n)\<close>, where \<open>n\<close> may be \<^verbatim>\<open>undefined\<close> (the whole array).\<close>

definition slice0 :: "'a list \<Rightarrow> nat option \<Rightarrow> 'a list" where
  "slice0 xs n = (case n of None \<Rightarrow> xs | Some k \<Rightarrow> take k xs)"

text \<open>\<^verbatim>\<open>Array.from(new Set(xs))\<close>: the first occurrence of each value, in order.\<close>

fun fromSet :: "'a list \<Rightarrow> 'a list \<Rightarrow> 'a list" where
  "fromSet seen [] = []"
| "fromSet seen (x # xs) =
     (if x \<in> set seen then fromSet seen xs else x # fromSet (seen @ [x]) xs)"

text \<open>A limit guarded by truthiness: \<^verbatim>\<open>limit && n > limit\<close>.\<close>

definition exceeds :: "nat option \<Rightarrow> nat \<Rightarrow> bool" where
  "exceeds limit n = (case limit of None \<Rightarrow> False | Some k \<Rightarrow> k \<noteq> 0 \<and> n > k)"

section \<open>Matchers\<close>

text \<open>
  A \<^verbatim>\<open>TagAttributeValueComparator\<close> is a JavaScript value: a string, a function,
  a \<^verbatim>\<open>RegExp\<close> (given by its \<^verbatim>\<open>test\<close>), an array of strings, a boolean, or, at run
  time, anything else (\<open>COther\<close>, carrying its truthiness). A function and a
  \<^verbatim>\<open>test\<close> are functions of the value: a predicate with side effects, and a \<^verbatim>\<open>RegExp\<close>
  with the \<^verbatim>\<open>g\<close> or \<^verbatim>\<open>y\<close> flag, whose \<^verbatim>\<open>test\<close> reads and writes \<^verbatim>\<open>lastIndex\<close>, are
  outside this type.
\<close>

datatype comparator =
    CString string
  | CFunction "string \<Rightarrow> bool"
  | CRegExp "string \<Rightarrow> bool"
  | CArray "string list"
  | CBoolean bool
  | COther bool

fun isFunction :: "comparator \<Rightarrow> bool" where
  "isFunction (CFunction f) = True"
| "isFunction _ = False"

fun isRegExp :: "comparator \<Rightarrow> bool" where
  "isRegExp (CRegExp r) = True"
| "isRegExp _ = False"

fun isString :: "comparator \<Rightarrow> bool" where
  "isString (CString s) = True"
| "isString _ = False"

fun isArray :: "comparator \<Rightarrow> bool" where
  "isArray (CArray xs) = True"
| "isArray _ = False"

fun isWildcard :: "comparator \<Rightarrow> bool" where
  "isWildcard (CString s) = (s = ''*'')"
| "isWildcard _ = False"

fun isBoolean :: "comparator \<Rightarrow> bool \<Rightarrow> bool" where
  "isBoolean (CBoolean b) c = (b = c)"
| "isBoolean _ c = False"

fun call :: "comparator \<Rightarrow> string \<Rightarrow> bool" where
  "call (CFunction f) v = f v"
| "call (CRegExp r) v = r v"
| "call _ v = False"

fun theString :: "comparator \<Rightarrow> string" where
  "theString (CString s) = s"
| "theString _ = []"

fun theArray :: "comparator \<Rightarrow> string list" where
  "theArray (CArray xs) = xs"
| "theArray _ = []"

definition matchComparator :: "comparator \<Rightarrow> string \<Rightarrow> bool" where
  "matchComparator cmp v =
     (if isWildcard cmp then True
      else if isFunction cmp then call cmp v
      else if isRegExp cmp then call cmp v
      else if isString cmp then v = theString cmp
      else if isArray cmp then v \<in> set (theArray cmp)
      else if isBoolean cmp True then v = []
      else if isBoolean cmp False then v \<noteq> []
      else False)"

text \<open>JavaScript truthiness of a matcher, as \<^verbatim>\<open>!pairRule\<close> reads it.\<close>

fun truthy :: "comparator \<Rightarrow> bool" where
  "truthy (CString s) = (s \<noteq> [])"
| "truthy (CBoolean b) = b"
| "truthy (COther b) = b"
| "truthy _ = True"

section \<open>Value parsers\<close>

type_synonym entry = "string \<times> string"

fun parseRecordLoop :: "string \<Rightarrow> string list \<Rightarrow> entry list \<Rightarrow> entry list" where
  "parseRecordLoop pairSep [] out = out"
| "parseRecordLoop pairSep (e # es) out =
     (let entry = split e pairSep in
      if length entry \<noteq> 2 then parseRecordLoop pairSep es out
      else let key = trim (entry ! 0) in
        if key = [] then parseRecordLoop pairSep es out
        else let val = trim (entry ! 1) in
          if val = [] then parseRecordLoop pairSep es out
          else parseRecordLoop pairSep es (out @ [(key, val)]))"

definition parseRecord :: "string \<Rightarrow> string \<Rightarrow> string \<Rightarrow> entry list" where
  "parseRecord input entrySep pairSep =
     (let trimmed = trim input in
      if trimmed = [] then []
      else let entries = filter (\<lambda>s. s \<noteq> []) (map trim (split trimmed entrySep))
        in parseRecordLoop pairSep entries [])"

definition parseSet :: "string \<Rightarrow> string \<Rightarrow> string list" where
  "parseSet input delimiter =
     (let trimmed = trim input in
      if trimmed = [] then []
      else fromSet [] (filter (\<lambda>s. s \<noteq> []) (map trim (split trimmed delimiter))))"

section \<open>Policies\<close>

text \<open>
  The strategy names of all error-handling slots. A slot holds any of them at run time:
  every handler is a \<^verbatim>\<open>switch\<close> whose \<^verbatim>\<open>default\<close> branch passes the strategy on to
  the next broader handler.
\<close>

datatype strategy =
    discardElement | throwError | unwrapElement
  | discardAttribute
  | applyDefaultValue
  | trimExcess
  | dropExtra
  | dropValue
  | dropPair
  | dropDuplicates | keepDuplicates | keepFirst | keepLast
  | discardFirsts | discardLasts

text \<open>An unset slot is \<open>None\<close>; an absent \<^verbatim>\<open>errorHandling\<close> object has every slot unset.\<close>

record ErrorHandling =
  attribute :: "strategy option"
  attributeCollectionValueTooMany :: "strategy option"
  attributeRecordValue :: "strategy option"
  attributeRecordValueDuplicate :: "strategy option"
  attributeSetValue :: "strategy option"
  attributeValue :: "strategy option"
  attributeValueTooLong :: "strategy option"
  tag :: "strategy option"
  tagChildren :: "strategy option"
  tagNesting :: "strategy option"

definition noErrorHandling :: ErrorHandling where
  "noErrorHandling =
     \<lparr>attribute = None, attributeCollectionValueTooMany = None, attributeRecordValue = None,
      attributeRecordValueDuplicate = None, attributeSetValue = None, attributeValue = None,
      attributeValueTooLong = None, tag = None, tagChildren = None, tagNesting = None\<rparr>"

datatype ruleMode = ModeSimple | ModeSet | ModeRecord

text \<open>
  A \<^verbatim>\<open>TagAttributeValueRule\<close> object. The common fields come first; \<open>simpleValue\<close> is
  the field \<^verbatim>\<open>value\<close> of a simple rule, \<open>setValues\<close> the field \<^verbatim>\<open>values\<close> of a set
  rule and \<open>recordValues\<close> the field \<^verbatim>\<open>values\<close> of a record rule. The code reads only
  the fields of the rule's own mode.
\<close>

record rule =
  mode :: ruleMode
  defaultValue :: "string option"
  maxLength :: "nat option"
  required :: bool
  simpleValue :: comparator
  delimiter :: string
  setValues :: comparator
  entrySeparator :: string
  keyValueSeparator :: string
  recordValues :: "string \<Rightarrow> comparator option"
  maxEntries :: "nat option"

definition simpleRule :: "comparator \<Rightarrow> rule" where
  "simpleRule cmp =
     \<lparr>mode = ModeSimple, defaultValue = None, maxLength = None, required = False,
      simpleValue = cmp, delimiter = [], setValues = COther False, entrySeparator = [],
      keyValueSeparator = [], recordValues = (\<lambda>k. None), maxEntries = None\<rparr>"

definition setRule :: "string \<Rightarrow> comparator \<Rightarrow> rule" where
  "setRule d cmp = (simpleRule (COther False))\<lparr>mode := ModeSet, delimiter := d, setValues := cmp\<rparr>"

definition recordRule :: "string \<Rightarrow> string \<Rightarrow> (string \<Rightarrow> comparator option) \<Rightarrow> rule" where
  "recordRule es kvs vs =
     (simpleRule (COther False))\<lparr>mode := ModeRecord, entrySeparator := es,
        keyValueSeparator := kvs, recordValues := vs\<rparr>"

record TagLimits =
  children :: "nat option"
  nesting :: "nat option"

definition noLimits :: TagLimits where
  "noLimits = \<lparr>children = None, nesting = None\<rparr>"

text \<open>
  The attribute rules of a tag are the entries of a JavaScript object, in
  \<^verbatim>\<open>Object.entries\<close> order; an absent object reads as the empty one.
\<close>

record TagRule =
  attributes :: "(string \<times> rule) list"
  limits :: TagLimits

record SanitizerOptions =
  errorHandling :: ErrorHandling
  preserveComments :: bool
  tags :: "string \<Rightarrow> TagRule option"
  topLevelLimits :: TagLimits

record SanitizerState =
  rootNesting :: nat
  tagFrames :: "(string \<times> nat) list"

section \<open>The tree\<close>

datatype node =
    Element string "(string \<times> string) list" "node list"
  | Comment string
  | Text string

text \<open>
  While an element is being sanitized the handlers see its tag name (absent on the
  document fragment), its attribute object (an insertion-ordered list: assignment to a
  present key keeps its place, to a new key appends), its child list, and what has been
  done to it in its parent: nothing, \<^verbatim>\<open>adapter.detachNode\<close>, or \<^verbatim>\<open>unwrapInParent\<close>.
\<close>

datatype fate = Attached | Detached | Unwrapped

record 'n element =
  tagName :: "string option"
  attribs :: "(string \<times> string) list"
  childNodes :: "'n list"
  fate :: fate

type_synonym attribute = "string \<times> string"

text \<open>\<^verbatim>\<open>adapter.detachNode(element)\<close>, as the walker sees it.\<close>

definition detached :: "'n element \<Rightarrow> 'n element" where
  "detached el = el\<lparr>fate := Detached\<rparr>"

text \<open>
  \<^verbatim>\<open>unwrapInParent(element)\<close>, as the walker sees it on an element that has a parent (every
  node the walker reaches has one): an element without children is detached, and the
  children of any other take its place in the child list of the parent. The section on the
  store of nodes derives this from the adapter's primitives.
\<close>

definition unwrapped :: "'n element \<Rightarrow> 'n element" where
  "unwrapped el = el\<lparr>fate := (if childNodes el = [] then Detached else Unwrapped)\<rparr>"

datatype error = Error string | TypeError string

function showNat :: "nat \<Rightarrow> string" where
  "showNat n =
     (if n < 10 then [char_of (48 + n)] else showNat (n div 10) @ [char_of (48 + n mod 10)])"
  by pat_completeness auto
termination
  by (relation "measure id") auto

definition orElse :: "'a option \<Rightarrow> 'a \<Rightarrow> 'a" where
  "orElse x d = (case x of None \<Rightarrow> d | Some y \<Rightarrow> y)"

section \<open>Direct handlers\<close>

text \<open>
  A handler returns the proceed flag and the element as it has left it, or the error it
  throws.
\<close>

definition handleTagError ::
  "'n element \<Rightarrow> strategy option \<Rightarrow> string option \<Rightarrow> error + bool \<times> 'n element" where
  "handleTagError el errorHandlingMode errorMessage =
     (case errorHandlingMode of
        Some discardElement \<Rightarrow> Inr (False, detached el)
      | Some unwrapElement \<Rightarrow> Inr (False, unwrapped el)
      | _ \<Rightarrow> Inl (Error (orElse errorMessage
                 (''Tag '' @ orElse (tagName el) [] @ '' is not allowed''))))"

definition handleTagAttributeError ::
  "attribute \<Rightarrow> 'n element \<Rightarrow> strategy option \<Rightarrow> string option \<Rightarrow> error + bool \<times> 'n element"
  where
  "handleTagAttributeError attr el errorHandlingMode errorMessage =
     (case errorHandlingMode of
        Some discardAttribute \<Rightarrow>
          Inr (True, el\<lparr>attribs := AList.delete (fst attr) (attribs el)\<rparr>)
      | _ \<Rightarrow> handleTagError el errorHandlingMode
               (Some (orElse errorMessage (''Attribute '' @ fst attr @ '' is not allowed''))))"

definition handleTagAttributeValueError ::
  "attribute \<Rightarrow> 'n element \<Rightarrow> rule \<Rightarrow> strategy option \<Rightarrow> string option
     \<Rightarrow> error + bool \<times> 'n element" where
  "handleTagAttributeValueError attr el rule errorHandlingMode errorMessage =
     (case errorHandlingMode of
        Some applyDefaultValue \<Rightarrow>
          (case defaultValue rule of
             Some d \<Rightarrow>
               if d \<noteq> [] then Inr (True, el\<lparr>attribs := AList.update (fst attr) d (attribs el)\<rparr>)
               else Inr (True, el\<lparr>attribs := AList.delete (fst attr) (attribs el)\<rparr>)
           | None \<Rightarrow> Inr (True, el\<lparr>attribs := AList.delete (fst attr) (attribs el)\<rparr>))
      | _ \<Rightarrow> handleTagAttributeError attr el errorHandlingMode
               (Some (orElse errorMessage
                  (''Value '' @ snd attr @ '' for attribute '' @ fst attr @ '' is not allowed''))))"

definition handleTagAttributeRecordValueError ::
  "attribute \<Rightarrow> 'n element \<Rightarrow> entry list \<Rightarrow> nat \<Rightarrow> rule \<Rightarrow> strategy option \<Rightarrow> string option
     \<Rightarrow> error + bool \<times> 'n element" where
  "handleTagAttributeRecordValueError attr el record index rule errorHandlingMode errorMessage =
     (case errorHandlingMode of
        Some dropPair \<Rightarrow> Inr (True, el)
      | _ \<Rightarrow> handleTagAttributeValueError attr el rule errorHandlingMode
               (Some (orElse errorMessage
                  (''Pair '' @ fst (record ! index) @ ''='' @ snd (record ! index)
                     @ '' for attribute '' @ fst attr @ '' is not allowed''))))"

definition handleTagAttributeSetValueError ::
  "attribute \<Rightarrow> 'n element \<Rightarrow> nat \<Rightarrow> string list \<Rightarrow> rule \<Rightarrow> strategy option \<Rightarrow> string option
     \<Rightarrow> error + bool \<times> 'n element" where
  "handleTagAttributeSetValueError attr el index theSet rule errorHandlingMode errorMessage =
     (case errorHandlingMode of
        Some dropValue \<Rightarrow> Inr (True, el)
      | _ \<Rightarrow> handleTagAttributeValueError attr el rule errorHandlingMode
               (Some (orElse errorMessage
                  (''Value '' @ theSet ! index @ '' for attribute '' @ fst attr
                     @ '' is not allowed''))))"

definition handleTagAttributeValueTooLongError ::
  "attribute \<Rightarrow> 'n element \<Rightarrow> rule \<Rightarrow> strategy option \<Rightarrow> string option
     \<Rightarrow> error + bool \<times> 'n element" where
  "handleTagAttributeValueTooLongError attr el rule errorHandlingMode errorMessage =
     (case errorHandlingMode of
        Some trimExcess \<Rightarrow>
          Inr (True, el\<lparr>attribs :=
                 AList.update (fst attr) (slice0 (snd attr) (maxLength rule)) (attribs el)\<rparr>)
      | _ \<Rightarrow> handleTagAttributeValueError attr el rule errorHandlingMode
               (Some (orElse errorMessage
                  (''Value '' @ snd attr @ '' for attribute '' @ fst attr @ '' is too long''))))"

text \<open>The two loops of \<^verbatim>\<open>handleTagChildrenError\<close>: detach the first (the last) child, \<open>n\<close> times.\<close>

primrec detachFirsts :: "nat \<Rightarrow> 'n list \<Rightarrow> 'n list" where
  "detachFirsts 0 cs = cs"
| "detachFirsts (Suc n) cs = detachFirsts n (case cs of [] \<Rightarrow> [] | c # rest \<Rightarrow> rest)"

primrec detachLasts :: "nat \<Rightarrow> 'n list \<Rightarrow> 'n list" where
  "detachLasts 0 cs = cs"
| "detachLasts (Suc n) cs = detachLasts n (if cs = [] then [] else butlast cs)"

definition handleTagChildrenError ::
  "'n element \<Rightarrow> nat \<Rightarrow> strategy option \<Rightarrow> error + bool \<times> 'n element" where
  "handleTagChildrenError el maxChildren errorHandlingMode =
     (let len = length (childNodes el); excess = len - maxChildren in
      case errorHandlingMode of
        Some discardElement \<Rightarrow> Inr (False, detached el)
      | Some discardFirsts \<Rightarrow>
          Inr (True, if excess > 0 then el\<lparr>childNodes := detachFirsts excess (childNodes el)\<rparr>
                     else el)
      | Some discardLasts \<Rightarrow>
          Inr (True, if excess > 0 then el\<lparr>childNodes := detachLasts excess (childNodes el)\<rparr>
                     else el)
      | _ \<Rightarrow>
          (case tagName el of
             Some t \<Rightarrow> Inl (Error (''Tag '' @ t
                @ '' has exceeded the maximum allowed number of children of ''
                @ showNat maxChildren))
           | None \<Rightarrow> Inl (Error (''Root has exceeded the maximum allowed number of children of ''
                @ showNat maxChildren))))"

definition handleTagNestingError ::
  "'n element \<Rightarrow> nat \<Rightarrow> strategy option \<Rightarrow> error + bool \<times> 'n element" where
  "handleTagNestingError el maxNesting errorHandlingMode =
     (case errorHandlingMode of
        Some discardElement \<Rightarrow> Inr (False, detached el)
      | _ \<Rightarrow>
          (case tagName el of
             Some t \<Rightarrow> Inl (Error (''Tag '' @ t @ '' has exceeded the maximum nesting level of ''
                @ showNat maxNesting))
           | None \<Rightarrow> Inl (Error (''Root has exceeded the maximum nesting level of ''
                @ showNat maxNesting))))"

section \<open>Indirect handlers\<close>

definition handleTagAttributeCollectionValueTooManyError ::
  "attribute \<Rightarrow> 'n element \<Rightarrow> 'a list \<Rightarrow> rule \<Rightarrow> strategy option \<Rightarrow> string option
     \<Rightarrow> error + 'a list \<times> bool \<times> 'n element" where
  "handleTagAttributeCollectionValueTooManyError attr el collection rule errorHandlingMode
       errorMessage =
     (case errorHandlingMode of
        Some dropExtra \<Rightarrow> Inr (slice0 collection (maxEntries rule), True, el)
      | _ \<Rightarrow>
          (case handleTagAttributeValueError attr el rule errorHandlingMode
                  (Some (orElse errorMessage
                     (''Value '' @ snd attr @ '' for attribute '' @ fst attr
                        @ '' has too many tokens''))) of
             Inl e \<Rightarrow> Inl e
           | Inr (proceed, el') \<Rightarrow> Inr (collection, proceed, el')))"

text \<open>The result is \<open>(output, globalProceed, localProceed, element)\<close>.\<close>

definition handleTagAttributeRecordValueDuplicateError ::
  "attribute \<Rightarrow> 'n element \<Rightarrow> string \<Rightarrow> entry list \<Rightarrow> rule \<Rightarrow> strategy option \<Rightarrow> string option
     \<Rightarrow> error + entry list \<times> bool \<times> bool \<times> 'n element" where
  "handleTagAttributeRecordValueDuplicateError attr el key record rule errorHandlingMode
       errorMessage =
     (case errorHandlingMode of
        Some dropDuplicates \<Rightarrow> Inr (filter (\<lambda>entry. fst entry \<noteq> key) record, True, False, el)
      | Some keepDuplicates \<Rightarrow> Inr (record, True, True, el)
      | Some keepFirst \<Rightarrow> Inr (record, True, False, el)
      | Some keepLast \<Rightarrow> Inr (filter (\<lambda>entry. fst entry \<noteq> key) record, True, True, el)
      | _ \<Rightarrow>
          (case handleTagAttributeValueError attr el rule errorHandlingMode
                  (Some (orElse errorMessage
                     (''Value '' @ snd attr @ '' for attribute '' @ fst attr
                        @ '' has duplicate '' @ key @ '' keys''))) of
             Inl e \<Rightarrow> Inl e
           | Inr (result, el') \<Rightarrow> Inr (record, result, result, el')))"

section \<open>Sanitizers\<close>

fun enforceRequiredLoop ::
  "(string \<times> rule) list \<Rightarrow> 'n element \<Rightarrow> ErrorHandling \<Rightarrow> error + bool \<times> 'n element" where
  "enforceRequiredLoop [] el eh = Inr (True, el)"
| "enforceRequiredLoop ((attrName, rule) # rest) el eh =
     (if attrName = ''*'' then enforceRequiredLoop rest el eh
      else if required rule \<and> map_of (attribs el) attrName = None then
        (case handleTagAttributeValueError (attrName, []) el rule (attributeValue eh) None of
           Inl e \<Rightarrow> Inl e
         | Inr (ok, el') \<Rightarrow>
             if \<not> ok then Inr (False, el') else enforceRequiredLoop rest el' eh)
      else enforceRequiredLoop rest el eh)"

definition enforceRequiredAttributes ::
  "'n element \<Rightarrow> (string \<times> rule) list \<Rightarrow> ErrorHandling \<Rightarrow> error + bool \<times> 'n element" where
  "enforceRequiredAttributes el rules eh = enforceRequiredLoop rules el eh"

definition sanitizeTag ::
  "'n element \<Rightarrow> TagRule option \<Rightarrow> strategy option \<Rightarrow> error + bool \<times> 'n element" where
  "sanitizeTag el rule eh =
     (case rule of Some r \<Rightarrow> Inr (True, el) | None \<Rightarrow> handleTagError el eh None)"

text \<open>The result is \<open>((globalProceed, localProceed), element)\<close>.\<close>

definition sanitizeTagAttribute ::
  "attribute \<Rightarrow> 'n element \<Rightarrow> rule option \<Rightarrow> strategy option
     \<Rightarrow> error + (bool \<times> bool) \<times> 'n element" where
  "sanitizeTagAttribute attr el rule eh =
     (case rule of
        Some r \<Rightarrow> Inr ((True, True), el)
      | None \<Rightarrow>
          (case handleTagAttributeError attr el eh None of
             Inl e \<Rightarrow> Inl e
           | Inr (g, el') \<Rightarrow> Inr ((g, False), el')))"

text \<open>
  The loop of \<^verbatim>\<open>sanitizeTagAttributeRecordValue\<close> over \<^verbatim>\<open>input.entries()\<close>: \<open>rest\<close> are the
  pairs still to visit, \<open>index\<close> the index of the first of them. The result is the
  \<open>output\<close> array, or \<open>None\<close> where the source returns \<^verbatim>\<open>false\<close>. A pair whose key has
  not been seen passes the duplicate check with the output unchanged.
\<close>

fun recordValueLoop ::
  "attribute \<Rightarrow> rule \<Rightarrow> ErrorHandling \<Rightarrow> entry list \<Rightarrow> nat \<Rightarrow> entry list \<Rightarrow> string set
     \<Rightarrow> entry list \<Rightarrow> 'n element \<Rightarrow> error + entry list option \<times> 'n element" where
  "recordValueLoop attr rule eh input index [] seen output el = Inr (Some output, el)"
| "recordValueLoop attr rule eh input index ((key, val) # rest) seen output el =
     (let pairRule = recordValues rule key in
      case (if key \<in> seen
            then handleTagAttributeRecordValueDuplicateError attr el key output rule
                   (attributeRecordValueDuplicate eh) None
            else Inr (output, True, True, el)) of
        Inl e \<Rightarrow> Inl e
      | Inr (output1, globalProceed, localProceed, el1) \<Rightarrow>
          if \<not> globalProceed then Inr (None, el1)
          else if \<not> localProceed
            then recordValueLoop attr rule eh input (index + 1) rest seen output1 el1
          else if (case pairRule of None \<Rightarrow> True
                   | Some cmp \<Rightarrow> \<not> truthy cmp \<or> \<not> matchComparator cmp val) then
            (case handleTagAttributeRecordValueError attr el1 input index rule
                    (attributeRecordValue eh) None of
               Inl e \<Rightarrow> Inl e
             | Inr (ok, el2) \<Rightarrow>
                 if \<not> ok then Inr (None, el2)
                 else recordValueLoop attr rule eh input (index + 1) rest seen output1 el2)
          else recordValueLoop attr rule eh input (index + 1) rest (insert key seen)
                 (output1 @ [(key, val)]) el1)"

definition sanitizeTagAttributeRecordValue ::
  "attribute \<Rightarrow> 'n element \<Rightarrow> rule \<Rightarrow> ErrorHandling \<Rightarrow> error + bool \<times> 'n element" where
  "sanitizeTagAttributeRecordValue attr el rule eh =
     (let input = parseRecord (snd attr) (entrySeparator rule) (keyValueSeparator rule) in
      case (if exceeds (maxEntries rule) (length input)
            then handleTagAttributeCollectionValueTooManyError attr el input rule
                   (attributeCollectionValueTooMany eh) None
            else Inr (input, True, el)) of
        Inl e \<Rightarrow> Inl e
      | Inr (input1, proceed, el1) \<Rightarrow>
          if \<not> proceed then Inr (False, el1)
          else
            (case recordValueLoop attr rule eh input1 0 input1 {} [] el1 of
               Inl e \<Rightarrow> Inl e
             | Inr (None, el2) \<Rightarrow> Inr (False, el2)
             | Inr (Some output, el2) \<Rightarrow>
                 Inr (True, el2\<lparr>attribs :=
                   AList.update (fst attr)
                     (join (entrySeparator rule)
                        (map (\<lambda>(key, val). key @ keyValueSeparator rule @ val) output))
                     (attribs el2)\<rparr>)))"

fun setValueLoop ::
  "attribute \<Rightarrow> rule \<Rightarrow> ErrorHandling \<Rightarrow> string list \<Rightarrow> nat \<Rightarrow> string list \<Rightarrow> string list
     \<Rightarrow> 'n element \<Rightarrow> error + string list option \<times> 'n element" where
  "setValueLoop attr rule eh input index [] output el = Inr (Some output, el)"
| "setValueLoop attr rule eh input index (val # rest) output el =
     (if \<not> matchComparator (setValues rule) val then
        (case handleTagAttributeSetValueError attr el index input rule (attributeSetValue eh)
                None of
           Inl e \<Rightarrow> Inl e
         | Inr (ok, el1) \<Rightarrow>
             if \<not> ok then Inr (None, el1)
             else setValueLoop attr rule eh input (index + 1) rest output el1)
      else setValueLoop attr rule eh input (index + 1) rest (output @ [val]) el)"

definition sanitizeTagAttributeSetValue ::
  "attribute \<Rightarrow> 'n element \<Rightarrow> rule \<Rightarrow> ErrorHandling \<Rightarrow> error + bool \<times> 'n element" where
  "sanitizeTagAttributeSetValue attr el rule eh =
     (let input = parseSet (snd attr) (delimiter rule) in
      case (if exceeds (maxEntries rule) (length input)
            then handleTagAttributeCollectionValueTooManyError attr el input rule
                   (attributeCollectionValueTooMany eh) None
            else Inr (input, True, el)) of
        Inl e \<Rightarrow> Inl e
      | Inr (input1, proceed, el1) \<Rightarrow>
          if \<not> proceed then Inr (False, el1)
          else
            (case setValueLoop attr rule eh input1 0 input1 [] el1 of
               Inl e \<Rightarrow> Inl e
             | Inr (None, el2) \<Rightarrow> Inr (False, el2)
             | Inr (Some output, el2) \<Rightarrow>
                 Inr (True, el2\<lparr>attribs :=
                   AList.update (fst attr) (join (delimiter rule) output) (attribs el2)\<rparr>)))"

definition sanitizeTagAttributeSimpleValue ::
  "attribute \<Rightarrow> 'n element \<Rightarrow> rule \<Rightarrow> strategy option \<Rightarrow> error + bool \<times> 'n element" where
  "sanitizeTagAttributeSimpleValue attr el rule eh =
     (if \<not> matchComparator (simpleValue rule) (snd attr)
      then handleTagAttributeValueError attr el rule eh None
      else Inr (True, el))"

text \<open>The \<^verbatim>\<open>switch (rule.mode)\<close> that ends \<^verbatim>\<open>sanitizeTagAttributeValue\<close>.\<close>

definition sanitizeByMode ::
  "attribute \<Rightarrow> 'n element \<Rightarrow> rule \<Rightarrow> ErrorHandling \<Rightarrow> error + bool \<times> 'n element" where
  "sanitizeByMode attr el rule eh =
     (case mode rule of
        ModeRecord \<Rightarrow> sanitizeTagAttributeRecordValue attr el rule eh
      | ModeSet \<Rightarrow> sanitizeTagAttributeSetValue attr el rule eh
      | ModeSimple \<Rightarrow> sanitizeTagAttributeSimpleValue attr el rule (attributeValue eh))"

definition sanitizeTagAttributeValue ::
  "attribute \<Rightarrow> 'n element \<Rightarrow> rule \<Rightarrow> ErrorHandling \<Rightarrow> error + bool \<times> 'n element" where
  "sanitizeTagAttributeValue attr el rule eh =
     (if exceeds (maxLength rule) (length (snd attr)) then
        (case handleTagAttributeValueTooLongError attr el rule (attributeValueTooLong eh) None of
           Inl e \<Rightarrow> Inl e
         | Inr (ok, el1) \<Rightarrow>
             if \<not> ok then Inr (False, el1)
             else
               (case map_of (attribs el1) (fst attr) of
                  None \<Rightarrow> Inr (True, el1)
                | Some v \<Rightarrow>
                    if v = [] then Inr (True, el1) else sanitizeByMode (fst attr, v) el1 rule eh))
      else sanitizeByMode attr el rule eh)"

text \<open>
  The loop of \<^verbatim>\<open>sanitizeAttributes\<close> over \<^verbatim>\<open>Object.keys(attributes)\<close>, taken before the
  loop; the value is read from the element when its key is reached.
\<close>

fun sanitizeAttributesLoop ::
  "string list \<Rightarrow> 'n element \<Rightarrow> (string \<times> rule) list \<Rightarrow> ErrorHandling
     \<Rightarrow> error + bool \<times> 'n element" where
  "sanitizeAttributesLoop [] el rules eh = enforceRequiredAttributes el rules eh"
| "sanitizeAttributesLoop (name # names) el rules eh =
     (case map_of (attribs el) name of
        None \<Rightarrow> Inl (TypeError ''attribute value is undefined'')
      | Some v \<Rightarrow>
          (let rule = (case map_of rules name of Some r \<Rightarrow> Some r | None \<Rightarrow> map_of rules ''*'') in
           case sanitizeTagAttribute (name, v) el rule (attribute eh) of
             Inl e \<Rightarrow> Inl e
           | Inr ((globalProceed, localProceed), el1) \<Rightarrow>
               if \<not> globalProceed then Inr (False, el1)
               else if \<not> localProceed then sanitizeAttributesLoop names el1 rules eh
               else
                 (case rule of
                    None \<Rightarrow> Inl (TypeError ''rule is undefined'')
                  | Some r \<Rightarrow>
                      (case sanitizeTagAttributeValue (name, v) el1 r eh of
                         Inl e \<Rightarrow> Inl e
                       | Inr (ok, el2) \<Rightarrow>
                           if \<not> ok then Inr (False, el2)
                           else sanitizeAttributesLoop names el2 rules eh))))"

definition sanitizeAttributes ::
  "'n element \<Rightarrow> (string \<times> rule) list \<Rightarrow> ErrorHandling \<Rightarrow> error + bool \<times> 'n element" where
  "sanitizeAttributes el rules eh =
     (let keys = map fst (attribs el) in
      if length keys = 0 then enforceRequiredAttributes el rules eh
      else sanitizeAttributesLoop keys el rules eh)"

section \<open>Walker\<close>

text \<open>
  What an element has left at its place in the child list of its parent.
\<close>

definition placeOf :: "node element \<Rightarrow> node list" where
  "placeOf el =
     (case fate el of
        Attached \<Rightarrow> [Element (orElse (tagName el) []) (attribs el) (childNodes el)]
      | Detached \<Rightarrow> []
      | Unwrapped \<Rightarrow> childNodes el)"

text \<open>
  The tag nesting loop of \<^verbatim>\<open>walkElement\<close>, from the innermost frame (index \<open>i\<close>) outwards:
  the frames with their counters incremented, or the limit that was exceeded.
\<close>

fun nestingLoop ::
  "(string \<Rightarrow> TagRule option) \<Rightarrow> nat \<Rightarrow> (string \<times> nat) list \<Rightarrow> nat + (string \<times> nat) list" where
  "nestingLoop tgs 0 tagDepth = Inr tagDepth"
| "nestingLoop tgs (Suc i) tagDepth =
     (let name = fst (tagDepth ! i);
          tagDepth1 = tagDepth[i := (name, snd (tagDepth ! i) + 1)];
          limit = (case tgs name of None \<Rightarrow> None | Some tagRule \<Rightarrow> nesting (limits tagRule))
      in if exceeds limit (snd (tagDepth1 ! i)) then Inl (orElse limit 0)
         else nestingLoop tgs i tagDepth1)"

lemma detachFirsts_drop: "detachFirsts n cs = drop n cs"
  by (induction n arbitrary: cs) (auto simp: drop_Suc split: list.splits)

lemma detachLasts_take: "detachLasts n cs = take (length cs - n) cs"
proof (induction n arbitrary: cs)
  case 0
  then show ?case by simp
next
  case (Suc n)
  show ?case
  proof (cases "cs = []")
    case True
    then show ?thesis by (simp add: Suc)
  next
    case False
    then show ?thesis by (simp add: Suc butlast_conv_take)
  qed
qed

lemma size_list_drop_le: "size_list f (drop n xs) \<le> size_list f xs"
  by (induction xs arbitrary: n) (auto simp: drop_Cons split: nat.splits intro: le_SucI trans_le_add2)

lemma size_list_take_le: "size_list f (take n xs) \<le> size_list f xs"
  by (induction xs arbitrary: n) (auto simp: take_Cons split: nat.splits)

lemma handleTagError_childNodes:
  "handleTagError el m msg = Inr (ok, el') \<Longrightarrow> childNodes el' = childNodes el"
  by (auto simp: handleTagError_def detached_def unwrapped_def
      split: option.splits strategy.splits)

lemma handleTagAttributeError_childNodes:
  "handleTagAttributeError attr el m msg = Inr (ok, el') \<Longrightarrow> childNodes el' = childNodes el"
  by (auto simp: handleTagAttributeError_def dest: handleTagError_childNodes
      split: option.splits strategy.splits)

lemma handleTagAttributeValueError_childNodes:
  "handleTagAttributeValueError attr el r m msg = Inr (ok, el') \<Longrightarrow> childNodes el' = childNodes el"
  by (auto simp: handleTagAttributeValueError_def dest: handleTagAttributeError_childNodes
      split: option.splits strategy.splits if_splits)

lemma handleTagAttributeRecordValueError_childNodes:
  "handleTagAttributeRecordValueError attr el rc i r m msg = Inr (ok, el')
     \<Longrightarrow> childNodes el' = childNodes el"
  by (auto simp: handleTagAttributeRecordValueError_def
      dest: handleTagAttributeValueError_childNodes split: option.splits strategy.splits)

lemma handleTagAttributeSetValueError_childNodes:
  "handleTagAttributeSetValueError attr el i st r m msg = Inr (ok, el')
     \<Longrightarrow> childNodes el' = childNodes el"
  by (auto simp: handleTagAttributeSetValueError_def
      dest: handleTagAttributeValueError_childNodes split: option.splits strategy.splits)

lemma handleTagAttributeValueTooLongError_childNodes:
  "handleTagAttributeValueTooLongError attr el r m msg = Inr (ok, el')
     \<Longrightarrow> childNodes el' = childNodes el"
  by (auto simp: handleTagAttributeValueTooLongError_def
      dest: handleTagAttributeValueError_childNodes split: option.splits strategy.splits)

lemma handleTagAttributeCollectionValueTooManyError_childNodes:
  "handleTagAttributeCollectionValueTooManyError attr el c r m msg = Inr (out, ok, el')
     \<Longrightarrow> childNodes el' = childNodes el"
  by (auto simp: handleTagAttributeCollectionValueTooManyError_def
      dest: handleTagAttributeValueError_childNodes
      split: option.splits strategy.splits sum.splits)

lemma handleTagAttributeRecordValueDuplicateError_childNodes:
  "handleTagAttributeRecordValueDuplicateError attr el k rc r m msg = Inr (out, g, l, el')
     \<Longrightarrow> childNodes el' = childNodes el"
  by (auto simp: handleTagAttributeRecordValueDuplicateError_def
      dest: handleTagAttributeValueError_childNodes
      split: option.splits strategy.splits sum.splits)

lemma enforceRequiredLoop_childNodes:
  "enforceRequiredLoop rules el eh = Inr (ok, el') \<Longrightarrow> childNodes el' = childNodes el"
proof (induction rules arbitrary: el)
  case Nil
  then show ?case by simp
next
  case (Cons p rules)
  obtain attrName rule where p: "p = (attrName, rule)" by (cases p)
  from Cons.prems show ?case
    unfolding p
    by (fastforce split: if_splits sum.splits prod.splits
        dest: Cons.IH handleTagAttributeValueError_childNodes)
qed

lemma recordValueLoop_childNodes:
  "recordValueLoop attr rule eh input index rest seen out el = Inr (res, el')
     \<Longrightarrow> childNodes el' = childNodes el"
proof (induction rest arbitrary: index seen out el)
  case Nil
  then show ?case by simp
next
  case (Cons p rest)
  obtain key val where p: "p = (key, val)" by (cases p)
  from Cons.prems show ?case
    unfolding p
    by (fastforce simp: Let_def split: if_splits sum.splits prod.splits
        dest: Cons.IH handleTagAttributeRecordValueDuplicateError_childNodes
          handleTagAttributeRecordValueError_childNodes)
qed

lemma setValueLoop_childNodes:
  "setValueLoop attr rule eh input index rest out el = Inr (res, el')
     \<Longrightarrow> childNodes el' = childNodes el"
proof (induction rest arbitrary: index out el)
  case Nil
  then show ?case by simp
next
  case (Cons val rest)
  from Cons.prems show ?case
    by (fastforce split: if_splits sum.splits prod.splits
        dest: Cons.IH handleTagAttributeSetValueError_childNodes)
qed

lemma sanitizeTagAttributeRecordValue_childNodes:
  "sanitizeTagAttributeRecordValue attr el rule eh = Inr (ok, el')
     \<Longrightarrow> childNodes el' = childNodes el"
  by (fastforce simp: sanitizeTagAttributeRecordValue_def Let_def
      split: if_splits sum.splits prod.splits option.splits
      dest: recordValueLoop_childNodes handleTagAttributeCollectionValueTooManyError_childNodes)

lemma sanitizeTagAttributeSetValue_childNodes:
  "sanitizeTagAttributeSetValue attr el rule eh = Inr (ok, el')
     \<Longrightarrow> childNodes el' = childNodes el"
  by (fastforce simp: sanitizeTagAttributeSetValue_def Let_def
      split: if_splits sum.splits prod.splits option.splits
      dest: setValueLoop_childNodes handleTagAttributeCollectionValueTooManyError_childNodes)

lemma sanitizeByMode_childNodes:
  "sanitizeByMode attr el rule eh = Inr (ok, el') \<Longrightarrow> childNodes el' = childNodes el"
  by (fastforce simp: sanitizeByMode_def sanitizeTagAttributeSimpleValue_def
      split: ruleMode.splits if_splits
      dest: sanitizeTagAttributeRecordValue_childNodes sanitizeTagAttributeSetValue_childNodes
        handleTagAttributeValueError_childNodes)

lemma sanitizeTagAttributeValue_childNodes:
  "sanitizeTagAttributeValue attr el rule eh = Inr (ok, el') \<Longrightarrow> childNodes el' = childNodes el"
  by (fastforce simp: sanitizeTagAttributeValue_def
      split: if_splits sum.splits prod.splits option.splits
      dest: sanitizeByMode_childNodes handleTagAttributeValueTooLongError_childNodes)

lemma sanitizeAttributesLoop_childNodes:
  "sanitizeAttributesLoop names el rules eh = Inr (ok, el') \<Longrightarrow> childNodes el' = childNodes el"
proof (induction names arbitrary: el)
  case Nil
  then show ?case by (simp add: enforceRequiredAttributes_def enforceRequiredLoop_childNodes)
next
  case (Cons name names)
  from Cons.prems show ?case
    by (fastforce simp: Let_def sanitizeTagAttribute_def
        split: if_splits sum.splits prod.splits option.splits
        dest: Cons.IH sanitizeTagAttributeValue_childNodes handleTagAttributeError_childNodes)
qed

lemma sanitizeAttributes_childNodes:
  "sanitizeAttributes el rules eh = Inr (ok, el') \<Longrightarrow> childNodes el' = childNodes el"
  by (fastforce simp: sanitizeAttributes_def Let_def enforceRequiredAttributes_def
      split: if_splits dest: sanitizeAttributesLoop_childNodes enforceRequiredLoop_childNodes)

lemma sanitizeTag_childNodes:
  "sanitizeTag el rule m = Inr (ok, el') \<Longrightarrow> childNodes el' = childNodes el"
  by (fastforce simp: sanitizeTag_def split: option.splits dest: handleTagError_childNodes)

lemma handleTagChildrenError_size:
  "handleTagChildrenError el n m = Inr (ok, el')
     \<Longrightarrow> size_list f (childNodes el') \<le> size_list f (childNodes el)"
  by (auto simp: handleTagChildrenError_def Let_def detached_def detachFirsts_drop
      detachLasts_take size_list_drop_le size_list_take_le
      split: option.splits strategy.splits if_splits)

lemma walk_children_smaller:
  assumes "sanitizeTag \<lparr>tagName = Some t, attribs = a, childNodes = cs, fate = Attached\<rparr> tr m = Inr (ok1, el1)"
    and "sanitizeAttributes el1 rs eh = Inr (ok2, el2)"
    and "(if b then handleTagChildrenError el2 n m' else Inr (True, el2)) = Inr (ok3, el3)"
  shows "size_list size (childNodes el3) \<le> size_list size cs"
proof -
  have 1: "childNodes el1 = cs" using sanitizeTag_childNodes[OF assms(1)] by simp
  have 2: "childNodes el2 = cs" using sanitizeAttributes_childNodes[OF assms(2)] 1 by simp
  show ?thesis
  proof (cases b)
    case True
    with assms(3) have "handleTagChildrenError el2 n m' = Inr (ok3, el3)" by simp
    from handleTagChildrenError_size[OF this, of size] 2 show ?thesis by simp
  next
    case False
    with assms(3) 2 show ?thesis by simp
  qed
qed

text \<open>
  \<^verbatim>\<open>walkNode\<close> and \<^verbatim>\<open>walkElement\<close> return what the node has left at its place in its
  parent, or the error thrown. \<open>walkChildren\<close> is the loop
  \<^verbatim>\<open>while (child) { const next = child.nextSibling; walkNode(child, ...); child = next; }\<close>:
  the next sibling is read before the child is walked, so the loop visits the children
  that were there when it reached them and never the nodes a child has put in its place.
\<close>

function walkNode :: "node \<Rightarrow> SanitizerOptions \<Rightarrow> SanitizerState \<Rightarrow> error + node list"
  and walkElement ::
    "string \<Rightarrow> (string \<times> string) list \<Rightarrow> node list \<Rightarrow> SanitizerOptions \<Rightarrow> SanitizerState
       \<Rightarrow> error + node list"
  and walkChildren :: "node list \<Rightarrow> SanitizerOptions \<Rightarrow> SanitizerState \<Rightarrow> error + node list"
  where
  "walkNode (Element t a cs) options state =
     (if exceeds (nesting (topLevelLimits options)) (rootNesting state) then
        (case handleTagNestingError
                \<lparr>tagName = Some t, attribs = a, childNodes = cs, fate = Attached\<rparr>
                (orElse (nesting (topLevelLimits options)) 0)
                (tagNesting (errorHandling options)) of
           Inl e \<Rightarrow> Inl e
         | Inr (ok, el) \<Rightarrow> Inr (placeOf el))
      else walkElement t a cs options (state\<lparr>rootNesting := rootNesting state + 1\<rparr>))"
| "walkNode (Comment c) options state =
     (if \<not> preserveComments options then Inr [] else Inr [Comment c])"
| "walkNode (Text x) options state = Inr [Text x]"
| "walkElement t a cs options state =
     (let element = \<lparr>tagName = Some t, attribs = a, childNodes = cs, fate = Attached\<rparr>;
          tagRule = tags options t
      in case sanitizeTag element tagRule (tag (errorHandling options)) of
        Inl e \<Rightarrow> Inl e
      | Inr (ok1, el1) \<Rightarrow>
          if \<not> ok1 then Inr (placeOf el1)
          else
            (case tagRule of
               None \<Rightarrow> Inl (TypeError ''tagRule is undefined'')
             | Some r \<Rightarrow>
                 (case sanitizeAttributes el1 (attributes r) (errorHandling options) of
                    Inl e \<Rightarrow> Inl e
                  | Inr (ok2, el2) \<Rightarrow>
                      if \<not> ok2 then Inr (placeOf el2)
                      else
                        (case (if exceeds (children (limits r)) (length (childNodes el2))
                               then handleTagChildrenError el2 (orElse (children (limits r)) 0)
                                      (tagChildren (errorHandling options))
                               else Inr (True, el2)) of
                           Inl e \<Rightarrow> Inl e
                         | Inr (ok3, el3) \<Rightarrow>
                             if \<not> ok3 then Inr (placeOf el3)
                             else
                               (case nestingLoop (tags options) (length (tagFrames state))
                                       (tagFrames state) of
                                  Inl maxNesting \<Rightarrow>
                                    (case handleTagNestingError el3 maxNesting
                                            (tagNesting (errorHandling options)) of
                                       Inl e \<Rightarrow> Inl e
                                     | Inr (ok4, el4) \<Rightarrow> Inr (placeOf el4))
                                | Inr tagDepth \<Rightarrow>
                                    (case walkChildren (childNodes el3) options
                                            (state\<lparr>tagFrames := tagDepth @ [(t, 0)]\<rparr>) of
                                       Inl e \<Rightarrow> Inl e
                                     | Inr kids \<Rightarrow>
                                         Inr (placeOf (el3\<lparr>childNodes := kids\<rparr>))))))))"
| "walkChildren [] options state = Inr []"
| "walkChildren (child # next) options state =
     (case walkNode child options state of
        Inl e \<Rightarrow> Inl e
      | Inr here \<Rightarrow>
          (case walkChildren next options state of
             Inl e \<Rightarrow> Inl e
           | Inr there \<Rightarrow> Inr (here @ there)))"
  by pat_completeness auto
termination
proof (relation "measure (\<lambda>x. case x of
          Inl (n, _, _) \<Rightarrow> 2 * size n
        | Inr (Inl (t, a, cs, _, _)) \<Rightarrow> 2 * size_list size cs + 1
        | Inr (Inr (cs, _, _)) \<Rightarrow> 2 * size_list size cs)", goal_cases)
  case 1
  then show ?case by simp
next
  case (2 t a cs options state)
  then show ?case by simp
next
  case 3
  then show ?case
    apply simp
    apply (drule sym[of "(True, _)"])+
    apply simp
    apply (drule (2) walk_children_smaller)
    apply simp
    done
next
  case (4 child "next" options state)
  then show ?case by simp
next
  case (5 child "next" options state x2)
  then show ?case by simp
qed

section \<open>Top-level driver\<close>

text \<open>
  \<^verbatim>\<open>parseFragment\<close> and \<^verbatim>\<open>serialize\<close> belong to the external parser; they are
  parameters here. The fragment is the node without a tag name; \<open>sanitizeFragment\<close> is
  the part of \<^verbatim>\<open>sanitizeHtml\<close> between parsing and serializing, \<open>None\<close> standing for
  the early \<^verbatim>\<open>return ""\<close>.
\<close>

definition sanitizeFragment :: "node list \<Rightarrow> SanitizerOptions \<Rightarrow> error + node list option" where
  "sanitizeFragment roots options =
     (let frag = \<lparr>tagName = None, attribs = [], childNodes = roots, fate = Attached\<rparr> in
      case (if exceeds (children (topLevelLimits options)) (length (childNodes frag))
            then handleTagChildrenError frag (orElse (children (topLevelLimits options)) 0)
                   (tagChildren (errorHandling options))
            else Inr (True, frag)) of
        Inl e \<Rightarrow> Inl e
      | Inr (ok, frag1) \<Rightarrow>
          if \<not> ok then Inr None
          else
            (case walkChildren (childNodes frag1) options \<lparr>rootNesting = 0, tagFrames = []\<rparr> of
               Inl e \<Rightarrow> Inl e
             | Inr kids \<Rightarrow> Inr (Some kids)))"


definition defaultOptions :: SanitizerOptions where
  "defaultOptions =
     \<lparr>errorHandling = noErrorHandling, preserveComments = False, tags = (\<lambda>t. None),
      topLevelLimits = noLimits\<rparr>"

definition noRules :: TagRule where
  "noRules = \<lparr>attributes = [], limits = noLimits\<rparr>"

section \<open>Policies and inputs used in the concrete runs\<close>

text \<open>A record pair is accepted when its key has a truthy matcher that matches the value.\<close>

definition accepted :: "rule \<Rightarrow> string \<Rightarrow> string \<Rightarrow> bool" where
  "accepted rule key val =
     (case recordValues rule key of
        None \<Rightarrow> False
      | Some cmp \<Rightarrow> truthy cmp \<and> matchComparator cmp val)"



text \<open>
  Every slot set, none to \<^verbatim>\<open>throwError\<close>:
  \<^verbatim>\<open>{ attribute: "discardAttribute", attributeCollectionValueTooMany: "dropExtra",
     attributeRecordValue: "dropPair", attributeRecordValueDuplicate: "keepFirst",
     attributeSetValue: "dropValue", attributeValue: "applyDefaultValue",
     attributeValueTooLong: "trimExcess", tag: "unwrapElement",
     tagChildren: "discardLasts", tagNesting: "discardElement" }\<close>
\<close>

definition unwrapHandling :: ErrorHandling where
  "unwrapHandling =
     \<lparr>attribute = Some discardAttribute, attributeCollectionValueTooMany = Some dropExtra,
      attributeRecordValue = Some dropPair, attributeRecordValueDuplicate = Some keepFirst,
      attributeSetValue = Some dropValue, attributeValue = Some applyDefaultValue,
      attributeValueTooLong = Some trimExcess, tag = Some unwrapElement,
      tagChildren = Some discardLasts, tagNesting = Some discardElement\<rparr>"

text \<open>\<^verbatim>\<open>{ tags: { div: {} }, errorHandling: unwrapHandling }\<close>\<close>

definition unwrapPolicy :: SanitizerOptions where
  "unwrapPolicy =
     defaultOptions\<lparr>tags := (\<lambda>t. if t = ''div'' then Some noRules else None),
       errorHandling := unwrapHandling\<rparr>"

text \<open>
  \<^verbatim>\<open>{ tags: { div: { limits: { children: 1 } }, p: {} }, errorHandling: unwrapHandling }\<close>
\<close>

definition oneChildPolicy :: SanitizerOptions where
  "oneChildPolicy =
     defaultOptions\<lparr>tags := (\<lambda>t.
         if t = ''div'' then Some \<lparr>attributes = [], limits = \<lparr>children = Some 1, nesting = None\<rparr>\<rparr>
         else if t = ''p'' then Some noRules else None),
       errorHandling := unwrapHandling\<rparr>"

text \<open>\<^verbatim>\<open>{ mode: "simple", value: "*", required: true, defaultValue: "" }\<close>\<close>

definition altRule :: rule where
  "altRule = (simpleRule (CString ''*''))\<lparr>required := True, defaultValue := Some []\<rparr>"

text \<open>\<^verbatim>\<open>{ mode: "simple", value: "*", maxLength: 0 }\<close>\<close>

definition zeroLengthRule :: rule where
  "zeroLengthRule = (simpleRule (CString ''*''))\<lparr>maxLength := Some 0\<rparr>"

text \<open>
  \<^verbatim>\<open>{ tags: { div: {} }, topLevelLimits: { children: 0 },
     errorHandling: { tagChildren: "discardElement" } }\<close>
\<close>

definition zeroChildrenPolicy :: SanitizerOptions where
  "zeroChildrenPolicy =
     defaultOptions\<lparr>tags := (\<lambda>t. if t = ''div'' then Some noRules else None),
       topLevelLimits := \<lparr>children = Some 0, nesting = None\<rparr>,
       errorHandling := noErrorHandling\<lparr>tagChildren := Some discardElement\<rparr>\<rparr>"

text \<open>The same on a parsed pair.\<close>

definition acceptedPair :: "rule \<Rightarrow> entry \<Rightarrow> bool" where
  "acceptedPair rule p = accepted rule (fst p) (snd p)"

text \<open>
  A set rule \<^verbatim>\<open>{ mode: "set", delimiter: " ", values: "*" }\<close> and a record rule
  \<^verbatim>\<open>{ mode: "record", entrySeparator: ";", keyValueSeparator: ":", values: { a: "*", b: "*" } }\<close>,
  each with an element that carries a raw value.
\<close>

definition classRule :: rule where
  "classRule = setRule '' '' (CString ''*'')"

definition classEl :: "node element" where
  "classEl = \<lparr>tagName = Some ''div'', attribs = [(''class'', '' a  b a '')], childNodes = [],
     fate = Attached\<rparr>"

definition pairsRule :: rule where
  "pairsRule = recordRule '';'' '':''
     (\<lambda>k. if k = ''a'' \<or> k = ''b'' then Some (CString ''*'') else None)"

definition pairsEl :: "node element" where
  "pairsEl = \<lparr>tagName = Some ''div'', attribs = [(''style'', '' a : 1 ;; b:2; c '')],
     childNodes = [], fate = Attached\<rparr>"

text \<open>
  \<^verbatim>\<open>parseRecord\<close> in the words of its description: the trimmed input is split on the entry
  separator, and an entry is kept when it splits on the pair separator into exactly two
  parts that are non-empty after trimming; it gives the pair of its trimmed parts. A blank
  input gives the empty list.
\<close>

definition keeps :: "string \<Rightarrow> string \<Rightarrow> bool" where
  "keeps pairSep e =
     (case split e pairSep of
        [k, v] \<Rightarrow> trim k \<noteq> [] \<and> trim v \<noteq> []
      | _ \<Rightarrow> False)"

definition pairOf :: "string \<Rightarrow> string \<Rightarrow> entry" where
  "pairOf pairSep e = (trim (split e pairSep ! 0), trim (split e pairSep ! 1))"

definition describedRecord :: "string \<Rightarrow> string \<Rightarrow> string \<Rightarrow> entry list" where
  "describedRecord input entrySep pairSep =
     (if trim input = [] then []
      else map (pairOf pairSep) (filter (keeps pairSep) (split (trim input) entrySep)))"

section \<open>Properties of policies and trees\<close>

text \<open>No slot that can reach \<^verbatim>\<open>handleTagError\<close> holds \<^verbatim>\<open>unwrapElement\<close>.\<close>

definition noUnwrap :: "ErrorHandling \<Rightarrow> bool" where
  "noUnwrap eh =
     (attribute eh \<noteq> Some unwrapElement
      \<and> attributeCollectionValueTooMany eh \<noteq> Some unwrapElement
      \<and> attributeRecordValue eh \<noteq> Some unwrapElement
      \<and> attributeRecordValueDuplicate eh \<noteq> Some unwrapElement
      \<and> attributeSetValue eh \<noteq> Some unwrapElement
      \<and> attributeValue eh \<noteq> Some unwrapElement
      \<and> attributeValueTooLong eh \<noteq> Some unwrapElement
      \<and> tag eh \<noteq> Some unwrapElement)"

text \<open>
  After a handler the element is in its parent when the handler says proceed, and detached
  when it does not.
\<close>

definition settled :: "bool \<Rightarrow> 'n element \<Rightarrow> bool" where
  "settled ok el = (fate el = (if ok then Attached else Detached))"

text \<open>
  Every element of the tree has a tag that is a key of \<open>tags\<close>; no element whose rule
  declares a children limit exceeds it.
\<close>

fun allowedTree :: "(string \<Rightarrow> TagRule option) \<Rightarrow> node \<Rightarrow> bool" where
  "allowedTree tgs (Element t a cs) = (tgs t \<noteq> None \<and> list_all (allowedTree tgs) cs)"
| "allowedTree tgs (Comment c) = True"
| "allowedTree tgs (Text x) = True"

fun limitsKept :: "(string \<Rightarrow> TagRule option) \<Rightarrow> node \<Rightarrow> bool" where
  "limitsKept tgs (Element t a cs) =
     ((case tgs t of
         None \<Rightarrow> True
       | Some tagRule \<Rightarrow> \<not> exceeds (children (limits tagRule)) (length cs))
      \<and> list_all (limitsKept tgs) cs)"
| "limitsKept tgs (Comment c) = True"
| "limitsKept tgs (Text x) = True"













text \<open>A handler for the attribute \<open>k\<close> leaves every other attribute as it is.\<close>

definition elsewhere :: "string \<Rightarrow> 'n element \<Rightarrow> 'n element \<Rightarrow> bool" where
  "elsewhere k el el' = (\<forall>k'. k' \<noteq> k \<longrightarrow> map_of (attribs el') k' = map_of (attribs el) k')"











section \<open>The tree adapter on a store of nodes\<close>

text \<open>
  \<^verbatim>\<open>unwrapInParent\<close> works on node objects through the tree adapter. A node object has a
  parent pointer, two sibling pointers and a child array (\<^verbatim>\<open>children\<close>, here \<open>childRefs\<close>);
  the store maps a reference to the object it points to.
\<close>

type_synonym ref = nat

record domNode =
  parentNode :: "ref option"
  previousSibling :: "ref option"
  nextSibling :: "ref option"
  childRefs :: "ref list"

type_synonym store = "ref \<Rightarrow> domNode"

definition setParent :: "store \<Rightarrow> ref \<Rightarrow> ref option \<Rightarrow> store" where
  "setParent s a v = s(a := (s a)\<lparr>parentNode := v\<rparr>)"

definition setPrev :: "store \<Rightarrow> ref \<Rightarrow> ref option \<Rightarrow> store" where
  "setPrev s a v = s(a := (s a)\<lparr>previousSibling := v\<rparr>)"

definition setNext :: "store \<Rightarrow> ref \<Rightarrow> ref option \<Rightarrow> store" where
  "setNext s a v = s(a := (s a)\<lparr>nextSibling := v\<rparr>)"

definition setChildren :: "store \<Rightarrow> ref \<Rightarrow> ref list \<Rightarrow> store" where
  "setChildren s a v = s(a := (s a)\<lparr>childRefs := v\<rparr>)"

text \<open>
  \<^verbatim>\<open>Array.prototype.indexOf\<close> (\<open>None\<close> for \<open>-1\<close>) and \<^verbatim>\<open>splice\<close> with one inserted or one
  removed element; a start of \<open>-1\<close> counts from the end of the array.
\<close>

fun indexOf :: "'a list \<Rightarrow> 'a \<Rightarrow> nat option" where
  "indexOf [] x = None"
| "indexOf (y # ys) x =
     (if y = x then Some 0 else (case indexOf ys x of None \<Rightarrow> None | Some i \<Rightarrow> Some (Suc i)))"

definition spliceStart :: "'a list \<Rightarrow> nat option \<Rightarrow> nat" where
  "spliceStart xs idx = (case idx of Some i \<Rightarrow> i | None \<Rightarrow> length xs - 1)"

definition spliceInsert :: "'a list \<Rightarrow> nat option \<Rightarrow> 'a \<Rightarrow> 'a list" where
  "spliceInsert xs idx x = take (spliceStart xs idx) xs @ [x] @ drop (spliceStart xs idx) xs"

definition spliceRemove :: "'a list \<Rightarrow> nat option \<Rightarrow> 'a list" where
  "spliceRemove xs idx = take (spliceStart xs idx) xs @ drop (spliceStart xs idx + 1) xs"

text \<open>
  Modelled from the spec: the primitives \<^verbatim>\<open>appendChild\<close>, \<^verbatim>\<open>insertBefore\<close> and
  \<^verbatim>\<open>detachNode\<close> of the tree model, which the sources import from the package
  \<^verbatim>\<open>parse5-htmlparser2-tree-adapter\<close>. They are written as that adapter performs them, one
  field assignment after the other. Inserting a node into a parent does not take it out of
  the child array it was in before.
\<close>

definition appendChild :: "store \<Rightarrow> ref \<Rightarrow> ref \<Rightarrow> store" where
  "appendChild s parent newNode =
     (let s1 = (if childRefs (s parent) = [] then s
                else let prev = last (childRefs (s parent))
                     in setPrev (setNext s prev (Some newNode)) newNode (Some prev));
          s2 = setChildren s1 parent (childRefs (s1 parent) @ [newNode])
      in setParent s2 newNode (Some parent))"

definition insertBefore :: "store \<Rightarrow> ref \<Rightarrow> ref \<Rightarrow> ref \<Rightarrow> store" where
  "insertBefore s parent newNode referenceNode =
     (let insertionIdx = indexOf (childRefs (s parent)) referenceNode;
          s1 = (case previousSibling (s referenceNode) of
                  None \<Rightarrow> s
                | Some prev \<Rightarrow> setPrev (setNext s prev (Some newNode)) newNode (Some prev));
          s2 = setPrev s1 referenceNode (Some newNode);
          s3 = setNext s2 newNode (Some referenceNode);
          s4 = setChildren s3 parent (spliceInsert (childRefs (s3 parent)) insertionIdx newNode)
      in setParent s4 newNode (Some parent))"

definition detachNode :: "store \<Rightarrow> ref \<Rightarrow> store" where
  "detachNode s node =
     (case parentNode (s node) of
        None \<Rightarrow> s
      | Some parent \<Rightarrow>
          (let idx = indexOf (childRefs (s parent)) node;
               prev = previousSibling (s node);
               nxt = nextSibling (s node);
               s1 = setNext (setPrev s node None) node None;
               s2 = (case prev of None \<Rightarrow> s1 | Some q \<Rightarrow> setNext s1 q nxt);
               s3 = (case nxt of None \<Rightarrow> s2 | Some q \<Rightarrow> setPrev s2 q prev);
               s4 = setChildren s3 parent (spliceRemove (childRefs (s3 parent)) idx)
           in setParent s4 node None))"

text \<open>
  The loop \<^verbatim>\<open>for (const child of element.children)\<close> of \<^verbatim>\<open>unwrapInParent\<close>. The body
  changes the child array of the parent only, and a node is not its own parent, so the
  loop runs over the children the element had on entry.
\<close>

fun unwrapLoop :: "store \<Rightarrow> ref \<Rightarrow> ref option \<Rightarrow> ref list \<Rightarrow> store" where
  "unwrapLoop s parent nxt [] = s"
| "unwrapLoop s parent nxt (child # rest) =
     unwrapLoop
       (case nxt of
          Some n \<Rightarrow> insertBefore s parent child n
        | None \<Rightarrow> appendChild s parent child)
       parent nxt rest"

definition unwrapInParent :: "store \<Rightarrow> ref \<Rightarrow> store" where
  "unwrapInParent s element =
     (if length (childRefs (s element)) = 0 then detachNode s element
      else
        (case parentNode (s element) of
           None \<Rightarrow> detachNode s element
         | Some parent \<Rightarrow>
             (let nxt = nextSibling (s element)
              in detachNode (unwrapLoop s parent nxt (childRefs (s element))) element)))"

text \<open>
  A parent \<open>0\<close> with the children \<open>1\<close>, \<open>2\<close>, \<open>3\<close>; node \<open>2\<close> has the children \<open>4\<close> and
  \<open>5\<close>, and \<open>4\<close> has the child \<open>6\<close>.
\<close>

definition blankNode :: domNode where
  "blankNode = \<lparr>parentNode = None, previousSibling = None, nextSibling = None, childRefs = []\<rparr>"

definition sampleStore :: store where
  "sampleStore =
     (\<lambda>n. blankNode)
       (0 := blankNode\<lparr>childRefs := [1, 2, 3]\<rparr>,
        1 := blankNode\<lparr>parentNode := Some 0, nextSibling := Some 2\<rparr>,
        2 := blankNode\<lparr>parentNode := Some 0, previousSibling := Some 1, nextSibling := Some 3,
               childRefs := [4, 5]\<rparr>,
        3 := blankNode\<lparr>parentNode := Some 0, previousSibling := Some 2\<rparr>,
        4 := blankNode\<lparr>parentNode := Some 2, nextSibling := Some 5, childRefs := [6]\<rparr>,
        5 := blankNode\<lparr>parentNode := Some 2, previousSibling := Some 4\<rparr>,
        6 := blankNode\<lparr>parentNode := Some 4\<rparr>)"

section \<open>What the handlers leave of an element\<close>

lemma handleTagError_settled:
  assumes "m \<noteq> Some unwrapElement" and "handleTagError el m msg = Inr (ok, el')"
  shows "settled ok el'"
  using assms
  by (cases m; cases "the m")
    (auto simp: handleTagError_def detached_def settled_def)

lemma handleTagAttributeError_settled:
  assumes "fate el = Attached" and "m \<noteq> Some unwrapElement"
    and "handleTagAttributeError attr el m msg = Inr (ok, el')"
  shows "settled ok el'"
proof (cases "m = Some discardAttribute")
  case True
  with assms show ?thesis by (auto simp: handleTagAttributeError_def settled_def)
next
  case False
  then have "handleTagAttributeError attr el m msg
      = handleTagError el m (Some (orElse msg (''Attribute '' @ fst attr @ '' is not allowed'')))"
    by (cases m; cases "the m") (simp_all add: handleTagAttributeError_def)
  with assms show ?thesis by (auto dest: handleTagError_settled)
qed

lemma handleTagAttributeValueError_settled:
  assumes "fate el = Attached" and "m \<noteq> Some unwrapElement"
    and "handleTagAttributeValueError attr el rule m msg = Inr (ok, el')"
  shows "settled ok el'"
proof (cases "m = Some applyDefaultValue")
  case True
  with assms show ?thesis
    by (auto simp: handleTagAttributeValueError_def settled_def split: option.splits if_splits)
next
  case False
  then have "handleTagAttributeValueError attr el rule m msg
      = handleTagAttributeError attr el m (Some (orElse msg
          (''Value '' @ snd attr @ '' for attribute '' @ fst attr @ '' is not allowed'')))"
    by (cases m; cases "the m") (simp_all add: handleTagAttributeValueError_def)
  with assms show ?thesis by (auto dest: handleTagAttributeError_settled)
qed

lemma handleTagAttributeRecordValueError_settled:
  assumes "fate el = Attached" and "m \<noteq> Some unwrapElement"
    and "handleTagAttributeRecordValueError attr el rc i rule m msg = Inr (ok, el')"
  shows "settled ok el'"
proof (cases "m = Some dropPair")
  case True
  with assms show ?thesis
    by (auto simp: handleTagAttributeRecordValueError_def settled_def)
next
  case False
  then have "handleTagAttributeRecordValueError attr el rc i rule m msg
      = handleTagAttributeValueError attr el rule m (Some (orElse msg
          (''Pair '' @ fst (rc ! i) @ ''='' @ snd (rc ! i)
             @ '' for attribute '' @ fst attr @ '' is not allowed'')))"
    by (cases m; cases "the m") (simp_all add: handleTagAttributeRecordValueError_def)
  with assms show ?thesis by (auto dest: handleTagAttributeValueError_settled)
qed

lemma handleTagAttributeSetValueError_settled:
  assumes "fate el = Attached" and "m \<noteq> Some unwrapElement"
    and "handleTagAttributeSetValueError attr el i st rule m msg = Inr (ok, el')"
  shows "settled ok el'"
proof (cases "m = Some dropValue")
  case True
  with assms show ?thesis
    by (auto simp: handleTagAttributeSetValueError_def settled_def)
next
  case False
  then have "handleTagAttributeSetValueError attr el i st rule m msg
      = handleTagAttributeValueError attr el rule m (Some (orElse msg
          (''Value '' @ st ! i @ '' for attribute '' @ fst attr @ '' is not allowed'')))"
    by (cases m; cases "the m") (simp_all add: handleTagAttributeSetValueError_def)
  with assms show ?thesis by (auto dest: handleTagAttributeValueError_settled)
qed

lemma handleTagAttributeValueTooLongError_settled:
  assumes "fate el = Attached" and "m \<noteq> Some unwrapElement"
    and "handleTagAttributeValueTooLongError attr el rule m msg = Inr (ok, el')"
  shows "settled ok el'"
proof (cases "m = Some trimExcess")
  case True
  with assms show ?thesis
    by (auto simp: handleTagAttributeValueTooLongError_def settled_def)
next
  case False
  then have "handleTagAttributeValueTooLongError attr el rule m msg
      = handleTagAttributeValueError attr el rule m (Some (orElse msg
          (''Value '' @ snd attr @ '' for attribute '' @ fst attr @ '' is too long'')))"
    by (cases m; cases "the m") (simp_all add: handleTagAttributeValueTooLongError_def)
  with assms show ?thesis by (auto dest: handleTagAttributeValueError_settled)
qed

lemma handleTagAttributeCollectionValueTooManyError_settled:
  assumes "fate el = Attached" and "m \<noteq> Some unwrapElement"
    and "handleTagAttributeCollectionValueTooManyError attr el c rule m msg = Inr (c', ok, el')"
  shows "settled ok el'"
proof (cases "m = Some dropExtra")
  case True
  with assms show ?thesis
    by (auto simp: handleTagAttributeCollectionValueTooManyError_def settled_def)
next
  case False
  then have "handleTagAttributeCollectionValueTooManyError attr el c rule m msg
      = (case handleTagAttributeValueError attr el rule m (Some (orElse msg
            (''Value '' @ snd attr @ '' for attribute '' @ fst attr @ '' has too many tokens'')))
         of Inl e \<Rightarrow> Inl e | Inr (proceed, el') \<Rightarrow> Inr (c, proceed, el'))"
    by (cases m; cases "the m")
      (simp_all add: handleTagAttributeCollectionValueTooManyError_def)
  with assms show ?thesis
    by (auto split: sum.splits dest: handleTagAttributeValueError_settled)
qed

lemma handleTagAttributeRecordValueDuplicateError_settled:
  assumes "fate el = Attached" and "m \<noteq> Some unwrapElement"
    and "handleTagAttributeRecordValueDuplicateError attr el k rc rule m msg
      = Inr (out, g, l, el')"
  shows "settled g el'"
proof (cases "m \<in> {Some dropDuplicates, Some keepDuplicates, Some keepFirst, Some keepLast}")
  case True
  with assms show ?thesis
    by (auto simp: handleTagAttributeRecordValueDuplicateError_def settled_def)
next
  case False
  then have "handleTagAttributeRecordValueDuplicateError attr el k rc rule m msg
      = (case handleTagAttributeValueError attr el rule m (Some (orElse msg
            (''Value '' @ snd attr @ '' for attribute '' @ fst attr
               @ '' has duplicate '' @ k @ '' keys'')))
         of Inl e \<Rightarrow> Inl e | Inr (result, el') \<Rightarrow> Inr (rc, result, result, el'))"
    by (cases m; cases "the m")
      (simp_all add: handleTagAttributeRecordValueDuplicateError_def)
  with assms show ?thesis
    by (auto split: sum.splits dest: handleTagAttributeValueError_settled)
qed

lemma settled_True [simp]: "settled True el \<longleftrightarrow> fate el = Attached"
  by (simp add: settled_def)

lemma settled_False [simp]: "settled False el \<longleftrightarrow> fate el = Detached"
  by (simp add: settled_def)

lemma settled_attribs [simp]: "settled ok (el\<lparr>attribs := a\<rparr>) = settled ok el"
  by (simp add: settled_def)

lemma enforceRequiredLoop_settled:
  "fate el = Attached \<Longrightarrow> attributeValue eh \<noteq> Some unwrapElement
     \<Longrightarrow> enforceRequiredLoop rules el eh = Inr (ok, el') \<Longrightarrow> settled ok el'"
proof (induction rules arbitrary: el)
  case Nil
  then show ?case by simp
next
  case (Cons p rules)
  obtain attrName rule where p: "p = (attrName, rule)" by (cases p)
  show ?case
  proof (cases "attrName \<noteq> ''*'' \<and> required rule \<and> map_of (attribs el) attrName = None")
    case False
    with Cons.prems have "enforceRequiredLoop rules el eh = Inr (ok, el')"
      by (auto simp: p split: if_splits)
    with Cons.IH Cons.prems show ?thesis by blast
  next
    case True
    with Cons.prems obtain ok1 el1 where
      h: "handleTagAttributeValueError (attrName, []) el rule (attributeValue eh) None
          = Inr (ok1, el1)"
      and rest: "if \<not> ok1 then (ok, el') = (False, el1)
                 else enforceRequiredLoop rules el1 eh = Inr (ok, el')"
      by (auto simp: p split: sum.splits if_splits)
    have s1: "settled ok1 el1"
      using handleTagAttributeValueError_settled [OF Cons.prems(1,2) h] .
    show ?thesis
    proof (cases ok1)
      case True
      with rest s1 Cons.IH [of el1] Cons.prems(2) show ?thesis by simp
    next
      case False
      with rest s1 show ?thesis by simp
    qed
  qed
qed

lemma setValueLoop_settled:
  "fate el = Attached \<Longrightarrow> attributeSetValue eh \<noteq> Some unwrapElement
     \<Longrightarrow> setValueLoop attr rule eh input index rest out el = Inr (res, el')
     \<Longrightarrow> settled (res \<noteq> None) el'"
proof (induction rest arbitrary: index out el)
  case Nil
  then show ?case by auto
next
  case (Cons val rest)
  show ?case
  proof (cases "matchComparator (setValues rule) val")
    case True
    with Cons.prems have
      "setValueLoop attr rule eh input (index + 1) rest (out @ [val]) el = Inr (res, el')"
      by simp
    with Cons.IH Cons.prems(1,2) show ?thesis by blast
  next
    case False
    with Cons.prems obtain ok1 el1 where
      h: "handleTagAttributeSetValueError attr el index input rule (attributeSetValue eh) None
          = Inr (ok1, el1)"
      and rest: "if \<not> ok1 then (res, el') = (None, el1)
                 else setValueLoop attr rule eh input (index + 1) rest out el1 = Inr (res, el')"
      by (auto split: sum.splits if_splits)
    have s1: "settled ok1 el1"
      using handleTagAttributeSetValueError_settled [OF Cons.prems(1,2) h] .
    show ?thesis
    proof (cases ok1)
      case True
      with rest s1 Cons.IH [of el1] Cons.prems(2) show ?thesis by simp
    next
      case False
      with rest s1 show ?thesis by simp
    qed
  qed
qed

lemma recordValueLoop_settled:
  "fate el = Attached \<Longrightarrow> attributeRecordValue eh \<noteq> Some unwrapElement
     \<Longrightarrow> attributeRecordValueDuplicate eh \<noteq> Some unwrapElement
     \<Longrightarrow> recordValueLoop attr rule eh input index rest seen out el = Inr (res, el')
     \<Longrightarrow> settled (res \<noteq> None) el'"
proof (induction rest arbitrary: index seen out el)
  case Nil
  then show ?case by auto
next
  case (Cons p rest)
  obtain key val where p: "p = (key, val)" by (cases p)
  let ?dup = "if key \<in> seen
      then handleTagAttributeRecordValueDuplicateError attr el key out rule
             (attributeRecordValueDuplicate eh) None
      else Inr (out, True, True, el)"
  from Cons.prems(4) obtain out1 g l el1 where dup: "?dup = Inr (out1, g, l, el1)"
    unfolding p by (auto simp: Let_def split: sum.splits prod.splits)
  have s1: "settled g el1"
  proof (cases "key \<in> seen")
    case True
    with dup have "handleTagAttributeRecordValueDuplicateError attr el key out rule
        (attributeRecordValueDuplicate eh) None = Inr (out1, g, l, el1)" by simp
    from handleTagAttributeRecordValueDuplicateError_settled [OF Cons.prems(1,3) this]
    show ?thesis .
  next
    case False
    with dup Cons.prems(1) show ?thesis by auto
  qed
  show ?case
  proof (cases g)
    case False
    with Cons.prems(4) dup s1 show ?thesis
      unfolding p by (auto simp: Let_def)
  next
    case g: True
    then have a1: "fate el1 = Attached" using s1 by simp
    let ?bad = "case recordValues rule key of None \<Rightarrow> True
        | Some cmp \<Rightarrow> \<not> truthy cmp \<or> \<not> matchComparator cmp val"
    consider (skip) "\<not> l" | (bad) "l" "?bad" | (good) "l" "\<not> ?bad" by blast
    then show ?thesis
    proof cases
      case skip
      with Cons.prems(4) dup g have
        "recordValueLoop attr rule eh input (index + 1) rest seen out1 el1 = Inr (res, el')"
        unfolding p by (simp add: Let_def)
      from Cons.IH [OF a1 Cons.prems(2,3) this] show ?thesis .
    next
      case good
      with Cons.prems(4) dup g have
        "recordValueLoop attr rule eh input (index + 1) rest (insert key seen)
           (out1 @ [(key, val)]) el1 = Inr (res, el')"
        unfolding p by (simp add: Let_def)
      from Cons.IH [OF a1 Cons.prems(2,3) this] show ?thesis .
    next
      case bad
      with Cons.prems(4) dup g obtain ok2 el2 where
        h: "handleTagAttributeRecordValueError attr el1 input index rule
            (attributeRecordValue eh) None = Inr (ok2, el2)"
        and rest: "if \<not> ok2 then (res, el') = (None, el2)
                   else recordValueLoop attr rule eh input (index + 1) rest seen out1 el2
                     = Inr (res, el')"
        unfolding p by (auto simp: Let_def split: sum.splits if_splits)
      have s2: "settled ok2 el2"
        using handleTagAttributeRecordValueError_settled [OF a1 Cons.prems(2) h] .
      show ?thesis
      proof (cases ok2)
        case True
        with rest s2 Cons.IH [of el2] Cons.prems(2,3) show ?thesis by simp
      next
        case False
        with rest s2 show ?thesis by simp
      qed
    qed
  qed
qed

lemma sanitizeTagAttributeSetValue_settled:
  assumes "fate el = Attached" and "noUnwrap eh"
    and "sanitizeTagAttributeSetValue attr el rule eh = Inr (ok, el')"
  shows "settled ok el'"
proof -
  let ?input = "parseSet (snd attr) (delimiter rule)"
  let ?first = "if exceeds (maxEntries rule) (length ?input)
      then handleTagAttributeCollectionValueTooManyError attr el ?input rule
             (attributeCollectionValueTooMany eh) None
      else Inr (?input, True, el)"
  from assms(3) obtain input1 proceed el1 where first: "?first = Inr (input1, proceed, el1)"
    unfolding sanitizeTagAttributeSetValue_def Let_def
    by (auto split: sum.splits prod.splits)
  have s1: "settled proceed el1"
  proof (cases "exceeds (maxEntries rule) (length ?input)")
    case True
    with first have "handleTagAttributeCollectionValueTooManyError attr el ?input rule
        (attributeCollectionValueTooMany eh) None = Inr (input1, proceed, el1)" by simp
    from handleTagAttributeCollectionValueTooManyError_settled [OF assms(1) _ this] assms(2)
    show ?thesis by (simp add: noUnwrap_def)
  next
    case False
    with first assms(1) show ?thesis by auto
  qed
  show ?thesis
  proof (cases proceed)
    case False
    with assms(3) first s1 show ?thesis
      unfolding sanitizeTagAttributeSetValue_def Let_def by auto
  next
    case True
    with assms(3) first obtain res el2 where
      loop: "setValueLoop attr rule eh input1 0 input1 [] el1 = Inr (res, el2)"
      and fin: "(ok, el') = (case res of None \<Rightarrow> (False, el2)
          | Some out \<Rightarrow> (True, el2\<lparr>attribs :=
              AList.update (fst attr) (join (delimiter rule) out) (attribs el2)\<rparr>))"
      unfolding sanitizeTagAttributeSetValue_def Let_def
      by (auto split: sum.splits prod.splits option.splits)
    have "settled (res \<noteq> None) el2"
      using setValueLoop_settled [OF _ _ loop] s1 True assms(2) by (simp add: noUnwrap_def)
    with fin show ?thesis by (cases res) auto
  qed
qed

lemma sanitizeTagAttributeRecordValue_settled:
  assumes "fate el = Attached" and "noUnwrap eh"
    and "sanitizeTagAttributeRecordValue attr el rule eh = Inr (ok, el')"
  shows "settled ok el'"
proof -
  let ?input = "parseRecord (snd attr) (entrySeparator rule) (keyValueSeparator rule)"
  let ?first = "if exceeds (maxEntries rule) (length ?input)
      then handleTagAttributeCollectionValueTooManyError attr el ?input rule
             (attributeCollectionValueTooMany eh) None
      else Inr (?input, True, el)"
  from assms(3) obtain input1 proceed el1 where first: "?first = Inr (input1, proceed, el1)"
    unfolding sanitizeTagAttributeRecordValue_def Let_def
    by (auto split: sum.splits prod.splits)
  have s1: "settled proceed el1"
  proof (cases "exceeds (maxEntries rule) (length ?input)")
    case True
    with first have "handleTagAttributeCollectionValueTooManyError attr el ?input rule
        (attributeCollectionValueTooMany eh) None = Inr (input1, proceed, el1)" by simp
    from handleTagAttributeCollectionValueTooManyError_settled [OF assms(1) _ this] assms(2)
    show ?thesis by (simp add: noUnwrap_def)
  next
    case False
    with first assms(1) show ?thesis by auto
  qed
  show ?thesis
  proof (cases proceed)
    case False
    with assms(3) first s1 show ?thesis
      unfolding sanitizeTagAttributeRecordValue_def Let_def by auto
  next
    case True
    with assms(3) first obtain res el2 where
      loop: "recordValueLoop attr rule eh input1 0 input1 {} [] el1 = Inr (res, el2)"
      and fin: "(ok, el') = (case res of None \<Rightarrow> (False, el2)
          | Some out \<Rightarrow> (True, el2\<lparr>attribs :=
              AList.update (fst attr)
                (join (entrySeparator rule)
                   (map (\<lambda>(key, val). key @ keyValueSeparator rule @ val) out))
                (attribs el2)\<rparr>))"
      unfolding sanitizeTagAttributeRecordValue_def Let_def
      by (auto split: sum.splits prod.splits option.splits)
    have "settled (res \<noteq> None) el2"
      using recordValueLoop_settled [OF _ _ _ loop] s1 True assms(2) by (simp add: noUnwrap_def)
    with fin show ?thesis by (cases res) auto
  qed
qed

lemma sanitizeByMode_settled:
  assumes "fate el = Attached" and "noUnwrap eh"
    and "sanitizeByMode attr el rule eh = Inr (ok, el')"
  shows "settled ok el'"
proof (cases "mode rule")
  case ModeSimple
  with assms(3) have
    "(if \<not> matchComparator (simpleValue rule) (snd attr)
      then handleTagAttributeValueError attr el rule (attributeValue eh) None
      else Inr (True, el)) = Inr (ok, el')"
    by (simp add: sanitizeByMode_def sanitizeTagAttributeSimpleValue_def)
  then show ?thesis
    using assms(1,2) handleTagAttributeValueError_settled [of el "attributeValue eh" attr rule None ok el']
    by (auto simp: noUnwrap_def split: if_splits)
next
  case ModeSet
  with assms show ?thesis
    by (auto simp: sanitizeByMode_def dest: sanitizeTagAttributeSetValue_settled)
next
  case ModeRecord
  with assms show ?thesis
    by (auto simp: sanitizeByMode_def dest: sanitizeTagAttributeRecordValue_settled)
qed

lemma sanitizeTagAttributeValue_settled:
  assumes "fate el = Attached" and "noUnwrap eh"
    and "sanitizeTagAttributeValue attr el rule eh = Inr (ok, el')"
  shows "settled ok el'"
proof (cases "exceeds (maxLength rule) (length (snd attr))")
  case False
  with assms show ?thesis
    by (auto simp: sanitizeTagAttributeValue_def dest: sanitizeByMode_settled)
next
  case True
  with assms(3) obtain ok1 el1 where
    h: "handleTagAttributeValueTooLongError attr el rule (attributeValueTooLong eh) None
        = Inr (ok1, el1)"
    and rest: "if \<not> ok1 then (ok, el') = (False, el1)
      else (case map_of (attribs el1) (fst attr) of
              None \<Rightarrow> Inr (True, el1)
            | Some v \<Rightarrow> if v = [] then Inr (True, el1)
                else sanitizeByMode (fst attr, v) el1 rule eh) = Inr (ok, el')"
    by (auto simp: sanitizeTagAttributeValue_def split: sum.splits if_splits)
  have s1: "settled ok1 el1"
    using handleTagAttributeValueTooLongError_settled [OF assms(1) _ h] assms(2)
    by (simp add: noUnwrap_def)
  show ?thesis
  proof (cases ok1)
    case False
    with rest s1 show ?thesis by simp
  next
    case True
    with s1 have a1: "fate el1 = Attached" by simp
    from rest True a1 assms(2) show ?thesis
      by (auto split: option.splits if_splits dest: sanitizeByMode_settled)
  qed
qed

lemma sanitizeAttributesLoop_settled:
  "fate el = Attached \<Longrightarrow> noUnwrap eh
     \<Longrightarrow> sanitizeAttributesLoop names el rules eh = Inr (ok, el') \<Longrightarrow> settled ok el'"
proof (induction names arbitrary: el)
  case Nil
  then show ?case
    by (auto simp: enforceRequiredAttributes_def noUnwrap_def dest: enforceRequiredLoop_settled)
next
  case (Cons name names)
  from Cons.prems(3) obtain v where v: "map_of (attribs el) name = Some v"
    by (auto split: option.splits)
  let ?rule = "case map_of rules name of Some r \<Rightarrow> Some r | None \<Rightarrow> map_of rules ''*''"
  show ?case
  proof (cases ?rule)
    case None
    with Cons.prems(3) v obtain g el1 where
      h: "handleTagAttributeError (name, v) el (attribute eh) None = Inr (g, el1)"
      and rest: "if \<not> g then (ok, el') = (False, el1)
                 else sanitizeAttributesLoop names el1 rules eh = Inr (ok, el')"
      by (auto simp: sanitizeTagAttribute_def Let_def split: sum.splits if_splits)
    have s1: "settled g el1"
      using handleTagAttributeError_settled [OF Cons.prems(1) _ h] Cons.prems(2)
      by (simp add: noUnwrap_def)
    show ?thesis
    proof (cases g)
      case True
      with rest s1 Cons.IH [of el1] Cons.prems(2) show ?thesis by simp
    next
      case False
      with rest s1 show ?thesis by simp
    qed
  next
    case (Some r)
    with Cons.prems(3) v obtain ok2 el2 where
      h: "sanitizeTagAttributeValue (name, v) el r eh = Inr (ok2, el2)"
      and rest: "if \<not> ok2 then (ok, el') = (False, el2)
                 else sanitizeAttributesLoop names el2 rules eh = Inr (ok, el')"
      by (auto simp: sanitizeTagAttribute_def Let_def split: sum.splits if_splits)
    have s2: "settled ok2 el2"
      using sanitizeTagAttributeValue_settled [OF Cons.prems(1,2) h] .
    show ?thesis
    proof (cases ok2)
      case True
      with rest s2 Cons.IH [of el2] Cons.prems(2) show ?thesis by simp
    next
      case False
      with rest s2 show ?thesis by simp
    qed
  qed
qed

lemma sanitizeAttributes_settled:
  "fate el = Attached \<Longrightarrow> noUnwrap eh
     \<Longrightarrow> sanitizeAttributes el rules eh = Inr (ok, el') \<Longrightarrow> settled ok el'"
  by (auto simp: sanitizeAttributes_def Let_def enforceRequiredAttributes_def noUnwrap_def
      split: if_splits dest: sanitizeAttributesLoop_settled enforceRequiredLoop_settled)

lemma sanitizeTag_settled:
  "fate el = Attached \<Longrightarrow> m \<noteq> Some unwrapElement
     \<Longrightarrow> sanitizeTag el rule m = Inr (ok, el') \<Longrightarrow> settled ok el'"
  by (auto simp: sanitizeTag_def split: option.splits dest: handleTagError_settled)

lemma handleTagChildrenError_settled:
  "fate el = Attached \<Longrightarrow> handleTagChildrenError el n m = Inr (ok, el') \<Longrightarrow> settled ok el'"
  by (cases m; cases "the m")
    (auto simp: handleTagChildrenError_def Let_def detached_def split: option.splits if_splits)

lemma handleTagNestingError_settled:
  "handleTagNestingError el n m = Inr (ok, el') \<Longrightarrow> settled ok el' \<and> \<not> ok"
  by (cases m; cases "the m")
    (auto simp: handleTagNestingError_def detached_def split: option.splits)

lemma handleTagError_tagName:
  "handleTagError el m msg = Inr (ok, el') \<Longrightarrow> tagName el' = tagName el"
  by (auto simp: handleTagError_def detached_def unwrapped_def
      split: option.splits strategy.splits)

lemma handleTagAttributeError_tagName:
  "handleTagAttributeError attr el m msg = Inr (ok, el') \<Longrightarrow> tagName el' = tagName el"
  by (auto simp: handleTagAttributeError_def dest: handleTagError_tagName
      split: option.splits strategy.splits)

lemma handleTagAttributeValueError_tagName:
  "handleTagAttributeValueError attr el r m msg = Inr (ok, el') \<Longrightarrow> tagName el' = tagName el"
  by (auto simp: handleTagAttributeValueError_def dest: handleTagAttributeError_tagName
      split: option.splits strategy.splits if_splits)

lemma handleTagAttributeRecordValueError_tagName:
  "handleTagAttributeRecordValueError attr el rc i r m msg = Inr (ok, el')
     \<Longrightarrow> tagName el' = tagName el"
  by (auto simp: handleTagAttributeRecordValueError_def
      dest: handleTagAttributeValueError_tagName split: option.splits strategy.splits)

lemma handleTagAttributeSetValueError_tagName:
  "handleTagAttributeSetValueError attr el i st r m msg = Inr (ok, el')
     \<Longrightarrow> tagName el' = tagName el"
  by (auto simp: handleTagAttributeSetValueError_def
      dest: handleTagAttributeValueError_tagName split: option.splits strategy.splits)

lemma handleTagAttributeValueTooLongError_tagName:
  "handleTagAttributeValueTooLongError attr el r m msg = Inr (ok, el')
     \<Longrightarrow> tagName el' = tagName el"
  by (auto simp: handleTagAttributeValueTooLongError_def
      dest: handleTagAttributeValueError_tagName split: option.splits strategy.splits)

lemma handleTagAttributeCollectionValueTooManyError_tagName:
  "handleTagAttributeCollectionValueTooManyError attr el c r m msg = Inr (out, ok, el')
     \<Longrightarrow> tagName el' = tagName el"
  by (auto simp: handleTagAttributeCollectionValueTooManyError_def
      dest: handleTagAttributeValueError_tagName
      split: option.splits strategy.splits sum.splits)

lemma handleTagAttributeRecordValueDuplicateError_tagName:
  "handleTagAttributeRecordValueDuplicateError attr el k rc r m msg = Inr (out, g, l, el')
     \<Longrightarrow> tagName el' = tagName el"
  by (auto simp: handleTagAttributeRecordValueDuplicateError_def
      dest: handleTagAttributeValueError_tagName
      split: option.splits strategy.splits sum.splits)

lemma enforceRequiredLoop_tagName:
  "enforceRequiredLoop rules el eh = Inr (ok, el') \<Longrightarrow> tagName el' = tagName el"
proof (induction rules arbitrary: el)
  case Nil
  then show ?case by simp
next
  case (Cons p rules)
  obtain attrName rule where p: "p = (attrName, rule)" by (cases p)
  from Cons.prems show ?case
    unfolding p
    by (fastforce split: if_splits sum.splits prod.splits
        dest: Cons.IH handleTagAttributeValueError_tagName)
qed

lemma recordValueLoop_tagName:
  "recordValueLoop attr rule eh input index rest seen out el = Inr (res, el')
     \<Longrightarrow> tagName el' = tagName el"
proof (induction rest arbitrary: index seen out el)
  case Nil
  then show ?case by simp
next
  case (Cons p rest)
  obtain key val where p: "p = (key, val)" by (cases p)
  from Cons.prems show ?case
    unfolding p
    by (fastforce simp: Let_def split: if_splits sum.splits prod.splits
        dest: Cons.IH handleTagAttributeRecordValueDuplicateError_tagName
          handleTagAttributeRecordValueError_tagName)
qed

lemma setValueLoop_tagName:
  "setValueLoop attr rule eh input index rest out el = Inr (res, el')
     \<Longrightarrow> tagName el' = tagName el"
proof (induction rest arbitrary: index out el)
  case Nil
  then show ?case by simp
next
  case (Cons val rest)
  from Cons.prems show ?case
    by (fastforce split: if_splits sum.splits prod.splits
        dest: Cons.IH handleTagAttributeSetValueError_tagName)
qed

lemma sanitizeTagAttributeRecordValue_tagName:
  "sanitizeTagAttributeRecordValue attr el rule eh = Inr (ok, el')
     \<Longrightarrow> tagName el' = tagName el"
  by (fastforce simp: sanitizeTagAttributeRecordValue_def Let_def
      split: if_splits sum.splits prod.splits option.splits
      dest: recordValueLoop_tagName handleTagAttributeCollectionValueTooManyError_tagName)

lemma sanitizeTagAttributeSetValue_tagName:
  "sanitizeTagAttributeSetValue attr el rule eh = Inr (ok, el')
     \<Longrightarrow> tagName el' = tagName el"
  by (fastforce simp: sanitizeTagAttributeSetValue_def Let_def
      split: if_splits sum.splits prod.splits option.splits
      dest: setValueLoop_tagName handleTagAttributeCollectionValueTooManyError_tagName)

lemma sanitizeByMode_tagName:
  "sanitizeByMode attr el rule eh = Inr (ok, el') \<Longrightarrow> tagName el' = tagName el"
  by (fastforce simp: sanitizeByMode_def sanitizeTagAttributeSimpleValue_def
      split: ruleMode.splits if_splits
      dest: sanitizeTagAttributeRecordValue_tagName sanitizeTagAttributeSetValue_tagName
        handleTagAttributeValueError_tagName)

lemma sanitizeTagAttributeValue_tagName:
  "sanitizeTagAttributeValue attr el rule eh = Inr (ok, el') \<Longrightarrow> tagName el' = tagName el"
  by (fastforce simp: sanitizeTagAttributeValue_def
      split: if_splits sum.splits prod.splits option.splits
      dest: sanitizeByMode_tagName handleTagAttributeValueTooLongError_tagName)

lemma sanitizeAttributesLoop_tagName:
  "sanitizeAttributesLoop names el rules eh = Inr (ok, el') \<Longrightarrow> tagName el' = tagName el"
proof (induction names arbitrary: el)
  case Nil
  then show ?case by (simp add: enforceRequiredAttributes_def enforceRequiredLoop_tagName)
next
  case (Cons name names)
  from Cons.prems show ?case
    by (fastforce simp: Let_def sanitizeTagAttribute_def
        split: if_splits sum.splits prod.splits option.splits
        dest: Cons.IH sanitizeTagAttributeValue_tagName handleTagAttributeError_tagName)
qed

lemma sanitizeAttributes_tagName:
  "sanitizeAttributes el rules eh = Inr (ok, el') \<Longrightarrow> tagName el' = tagName el"
  by (fastforce simp: sanitizeAttributes_def Let_def enforceRequiredAttributes_def
      split: if_splits dest: sanitizeAttributesLoop_tagName enforceRequiredLoop_tagName)

lemma sanitizeTag_tagName:
  "sanitizeTag el rule m = Inr (ok, el') \<Longrightarrow> tagName el' = tagName el"
  by (fastforce simp: sanitizeTag_def split: option.splits dest: handleTagError_tagName)

lemma handleTagChildrenError_tagName:
  "handleTagChildrenError el n m = Inr (ok, el') \<Longrightarrow> tagName el' = tagName el"
  by (cases m; cases "the m")
    (auto simp: handleTagChildrenError_def Let_def detached_def split: option.splits if_splits)

lemma handleTagChildrenError_length:
  assumes "exceeds (Some n) (length (childNodes el))"
    and "handleTagChildrenError el n m = Inr (True, el')"
  shows "length (childNodes el') \<le> n"
  using assms
  by (cases m; cases "the m")
    (auto simp: handleTagChildrenError_def Let_def detached_def detachFirsts_drop
      detachLasts_take exceeds_def split: option.splits if_splits)

lemma handleTagChildrenError_shorter:
  assumes "handleTagChildrenError el n m = Inr (ok, el')"
  shows "length (childNodes el') \<le> length (childNodes el)"
  using assms
  by (cases m; cases "the m")
    (auto simp: handleTagChildrenError_def Let_def detached_def detachFirsts_drop
      detachLasts_take split: option.splits if_splits)

section \<open>The walker without \<^verbatim>\<open>unwrapElement\<close>\<close>

lemma placeOf_Detached [simp]: "fate el = Detached \<Longrightarrow> placeOf el = []"
  by (simp add: placeOf_def)

lemma placeOf_Attached:
  "fate el = Attached \<Longrightarrow> tagName el = Some t
     \<Longrightarrow> placeOf el = [Element t (attribs el) (childNodes el)]"
  by (simp add: placeOf_def orElse_def)

lemma walkElement_result:
  assumes nu: "noUnwrap (errorHandling options)"
    and run: "walkElement t a cs options state = Inr out"
  shows "out = []
    \<or> (\<exists>r (el1 :: node element) (el2 :: node element) (el3 :: node element) tagDepth kids.
          tags options t = Some r
          \<and> sanitizeTag \<lparr>tagName = Some t, attribs = a, childNodes = cs, fate = Attached\<rparr>
                (tags options t) (tag (errorHandling options)) = Inr (True, el1)
          \<and> sanitizeAttributes el1 (attributes r) (errorHandling options) = Inr (True, el2)
          \<and> (if exceeds (children (limits r)) (length (childNodes el2))
               then handleTagChildrenError el2 (orElse (children (limits r)) 0)
                      (tagChildren (errorHandling options))
               else Inr (True, el2)) = Inr (True, el3)
          \<and> nestingLoop (tags options) (length (tagFrames state)) (tagFrames state)
                = Inr tagDepth
          \<and> length (childNodes el3) \<le> length cs
          \<and> \<not> exceeds (children (limits r)) (length (childNodes el3))
          \<and> walkChildren (childNodes el3) options (state\<lparr>tagFrames := tagDepth @ [(t, 0)]\<rparr>)
              = Inr kids
          \<and> out = [Element t (attribs el3) kids])"
proof -
  let ?el = "\<lparr>tagName = Some t, attribs = a, childNodes = cs, fate = Attached\<rparr> :: node element"
  let ?eh = "errorHandling options"
  have tag_nu: "tag ?eh \<noteq> Some unwrapElement" using nu by (simp add: noUnwrap_def)
  from run obtain ok1 el1 where
    st: "sanitizeTag ?el (tags options t) (tag ?eh) = Inr (ok1, el1)"
    by (auto simp: Let_def split: sum.splits)
  have s1: "settled ok1 el1" using sanitizeTag_settled [OF _ tag_nu st] by simp
  show ?thesis
  proof (cases ok1)
    case False
    with run st s1 show ?thesis by (auto simp: Let_def)
  next
    case ok1: True
    then have f1: "fate el1 = Attached" using s1 by simp
    have c1: "childNodes el1 = cs" using sanitizeTag_childNodes [OF st] by simp
    have n1: "tagName el1 = Some t" using sanitizeTag_tagName [OF st] by simp
    from run st ok1 obtain r where r: "tags options t = Some r"
      by (auto simp: Let_def split: option.splits)
    from run st ok1 r obtain ok2 el2 where
      sa: "sanitizeAttributes el1 (attributes r) ?eh = Inr (ok2, el2)"
      by (auto simp: Let_def split: sum.splits)
    have s2: "settled ok2 el2" using sanitizeAttributes_settled [OF f1 nu sa] .
    show ?thesis
    proof (cases ok2)
      case False
      with run st ok1 r sa s2 show ?thesis by (auto simp: Let_def)
    next
      case ok2: True
      then have f2: "fate el2 = Attached" using s2 by simp
      have c2: "childNodes el2 = cs" using sanitizeAttributes_childNodes [OF sa] c1 by simp
      have n2: "tagName el2 = Some t" using sanitizeAttributes_tagName [OF sa] n1 by simp
      let ?ch = "if exceeds (children (limits r)) (length (childNodes el2))
          then handleTagChildrenError el2 (orElse (children (limits r)) 0) (tagChildren ?eh)
          else Inr (True, el2)"
      from run st ok1 r sa ok2 obtain ok3 el3 where ch: "?ch = Inr (ok3, el3)"
        by (auto simp: Let_def split: sum.splits)
      have s3: "settled ok3 el3"
        using ch f2 by (auto split: if_splits dest: handleTagChildrenError_settled)
      have n3: "tagName el3 = Some t"
        using ch n2 by (auto split: if_splits dest: handleTagChildrenError_tagName)
      have c3: "length (childNodes el3) \<le> length cs"
        using ch c2 by (auto split: if_splits dest: handleTagChildrenError_shorter)
      show ?thesis
      proof (cases ok3)
        case False
        with run st ok1 r sa ok2 ch s3 show ?thesis by (auto simp: Let_def)
      next
        case ok3: True
        then have f3: "fate el3 = Attached" using s3 by simp
        have lim: "\<not> exceeds (children (limits r)) (length (childNodes el3))"
        proof (cases "exceeds (children (limits r)) (length (childNodes el2))")
          case False
          with ch show ?thesis by auto
        next
          case True
          then obtain n where n: "children (limits r) = Some n"
            by (auto simp: exceeds_def split: option.splits)
          with True ch ok3 have "handleTagChildrenError el2 n (tagChildren ?eh) = Inr (True, el3)"
            by (simp add: orElse_def)
          from handleTagChildrenError_length [OF _ this] True n
          show ?thesis by (simp add: exceeds_def)
        qed
        show ?thesis
        proof (cases "nestingLoop (tags options) (length (tagFrames state)) (tagFrames state)")
          case (Inl maxNesting)
          with run st ok1 r sa ok2 ch ok3 obtain ok4 el4 where
            "handleTagNestingError el3 maxNesting (tagNesting ?eh) = Inr (ok4, el4)"
            and "out = placeOf el4"
            by (auto simp: Let_def split: sum.splits)
          then show ?thesis using handleTagNestingError_settled by fastforce
        next
          case (Inr tagDepth)
          with run st ok1 r sa ok2 ch ok3 obtain kids where
            kids: "walkChildren (childNodes el3) options
                (state\<lparr>tagFrames := tagDepth @ [(t, 0)]\<rparr>) = Inr kids"
            and out: "out = placeOf (el3\<lparr>childNodes := kids\<rparr>)"
            by (auto simp: Let_def split: sum.splits)
          have "out = [Element t (attribs el3) kids]"
            using out f3 n3 by (simp add: placeOf_Attached)
          moreover from st ok1 have "sanitizeTag ?el (tags options t) (tag ?eh) = Inr (True, el1)"
            by simp
          moreover from sa ok2 have "sanitizeAttributes el1 (attributes r) ?eh = Inr (True, el2)"
            by simp
          moreover from ch ok3 have "?ch = Inr (True, el3)" by simp
          ultimately show ?thesis using r c3 lim kids Inr by blast
        qed
      qed
    qed
  qed
qed

lemma walk_sound:
  "noUnwrap (errorHandling options) \<longrightarrow>
     (\<forall>out. walkNode n options state = Inr out \<longrightarrow>
        length out \<le> 1 \<and> list_all (allowedTree (tags options)) out
        \<and> list_all (limitsKept (tags options)) out)"
  "noUnwrap (errorHandling options) \<longrightarrow>
     (\<forall>out. walkElement t a cs options state = Inr out \<longrightarrow>
        length out \<le> 1 \<and> list_all (allowedTree (tags options)) out
        \<and> list_all (limitsKept (tags options)) out)"
  "noUnwrap (errorHandling options) \<longrightarrow>
     (\<forall>out. walkChildren cs options state = Inr out \<longrightarrow>
        length out \<le> length cs \<and> list_all (allowedTree (tags options)) out
        \<and> list_all (limitsKept (tags options)) out)"
proof (induction n options state and t a cs options state and cs options state
    rule: walkNode_walkElement_walkChildren.induct)
  case (1 t a cs options state)
  show ?case
  proof (intro impI allI)
    fix out
    assume nu: "noUnwrap (errorHandling options)"
      and run: "walkNode (Element t a cs) options state = Inr out"
    show "length out \<le> 1 \<and> list_all (allowedTree (tags options)) out
        \<and> list_all (limitsKept (tags options)) out"
    proof (cases "exceeds (nesting (topLevelLimits options)) (rootNesting state)")
      case True
      with run obtain ok el where
        "handleTagNestingError \<lparr>tagName = Some t, attribs = a, childNodes = cs, fate = Attached\<rparr>
           (orElse (nesting (topLevelLimits options)) 0)
           (tagNesting (errorHandling options)) = Inr (ok, el)"
        and "out = placeOf el"
        by (auto split: sum.splits)
      then have "out = []" using handleTagNestingError_settled by fastforce
      then show ?thesis by simp
    next
      case False
      with run have "walkElement t a cs options (state\<lparr>rootNesting := rootNesting state + 1\<rparr>)
          = Inr out" by simp
      with 1 [OF False] nu show ?thesis by blast
    qed
  qed
next
  case (2 c options state)
  then show ?case by (auto split: if_splits)
next
  case (3 x options state)
  then show ?case by auto
next
  case (4 t a cs options state)
  show ?case
  proof (intro impI allI)
    fix out
    assume nu: "noUnwrap (errorHandling options)"
      and run: "walkElement t a cs options state = Inr out"
    from walkElement_result [OF nu run]
    show "length out \<le> 1 \<and> list_all (allowedTree (tags options)) out
        \<and> list_all (limitsKept (tags options)) out"
    proof
      assume "out = []"
      then show ?thesis by simp
    next
      assume "\<exists>r (el1 :: node element) (el2 :: node element) (el3 :: node element) tagDepth kids.
          tags options t = Some r
          \<and> sanitizeTag \<lparr>tagName = Some t, attribs = a, childNodes = cs, fate = Attached\<rparr>
                (tags options t) (tag (errorHandling options)) = Inr (True, el1)
          \<and> sanitizeAttributes el1 (attributes r) (errorHandling options) = Inr (True, el2)
          \<and> (if exceeds (children (limits r)) (length (childNodes el2))
               then handleTagChildrenError el2 (orElse (children (limits r)) 0)
                      (tagChildren (errorHandling options))
               else Inr (True, el2)) = Inr (True, el3)
          \<and> nestingLoop (tags options) (length (tagFrames state)) (tagFrames state)
                = Inr tagDepth
          \<and> length (childNodes el3) \<le> length cs
          \<and> \<not> exceeds (children (limits r)) (length (childNodes el3))
          \<and> walkChildren (childNodes el3) options (state\<lparr>tagFrames := tagDepth @ [(t, 0)]\<rparr>)
              = Inr kids
          \<and> out = [Element t (attribs el3) kids]"
      then obtain r and el1 el2 el3 :: "node element" and tagDepth kids where
        r: "tags options t = Some r"
        and st: "sanitizeTag \<lparr>tagName = Some t, attribs = a, childNodes = cs, fate = Attached\<rparr>
                (tags options t) (tag (errorHandling options)) = Inr (True, el1)"
        and sa: "sanitizeAttributes el1 (attributes r) (errorHandling options) = Inr (True, el2)"
        and ch: "(if exceeds (children (limits r)) (length (childNodes el2))
               then handleTagChildrenError el2 (orElse (children (limits r)) 0)
                      (tagChildren (errorHandling options))
               else Inr (True, el2)) = Inr (True, el3)"
        and nl: "nestingLoop (tags options) (length (tagFrames state)) (tagFrames state)
                = Inr tagDepth"
        and lim: "\<not> exceeds (children (limits r)) (length (childNodes el3))"
        and kids: "walkChildren (childNodes el3) options
            (state\<lparr>tagFrames := tagDepth @ [(t, 0)]\<rparr>) = Inr kids"
        and out: "out = [Element t (attribs el3) kids]"
        by blast
      have ih: "length kids \<le> length (childNodes el3)
          \<and> list_all (allowedTree (tags options)) kids
          \<and> list_all (limitsKept (tags options)) kids"
        using 4 [OF refl refl st refl _ r [symmetric, THEN sym] sa refl _ ch refl _ nl] nu kids
        by simp
      have "\<not> exceeds (children (limits r)) (length kids)"
        using lim ih by (auto simp: exceeds_def split: option.splits)
      with out r ih show ?thesis by simp
    qed
  qed
next
  case (5 options state)
  then show ?case by simp
next
  case (6 child "next" options state)
  show ?case
  proof (intro impI allI)
    fix out
    assume nu: "noUnwrap (errorHandling options)"
      and run: "walkChildren (child # next) options state = Inr out"
    from run obtain here there where
      h: "walkNode child options state = Inr here"
      and t: "walkChildren next options state = Inr there"
      and out: "out = here @ there"
      by (auto split: sum.splits)
    from 6(1) nu h have "length here \<le> 1 \<and> list_all (allowedTree (tags options)) here
        \<and> list_all (limitsKept (tags options)) here" by blast
    moreover from 6(2) [OF h] nu t have "length there \<le> length next
        \<and> list_all (allowedTree (tags options)) there
        \<and> list_all (limitsKept (tags options)) there" by blast
    ultimately show "length out \<le> length (child # next)
        \<and> list_all (allowedTree (tags options)) out
        \<and> list_all (limitsKept (tags options)) out"
      using out by simp
  qed
qed

lemma sanitizeFragment_sound:
  assumes "noUnwrap (errorHandling options)"
    and "sanitizeFragment roots options = Inr (Some kids)"
  shows "list_all (allowedTree (tags options)) kids \<and> list_all (limitsKept (tags options)) kids"
proof -
  from assms(2) obtain cs where
    "walkChildren cs options \<lparr>rootNesting = 0, tagFrames = []\<rparr> = Inr kids"
    by (auto simp: sanitizeFragment_def Let_def split: sum.splits prod.splits if_splits)
  with walk_sound(3) [of options cs "\<lparr>rootNesting = 0, tagFrames = []\<rparr>"] assms(1)
  show ?thesis by simp
qed

section \<open>Well-formedness and limits under \<^verbatim>\<open>unwrapElement\<close>\<close>

text \<open>
  C1 (well-formedness). The claim: after a run that does not throw, every element of the
  tree has a tag that is a key of the policy's \<open>tags\<close>, also among the children an unwrap
  has spliced up. The run below shows what the walker does instead. With only \<open>div\<close>
  allowed, the tag strategy \<^verbatim>\<open>unwrapElement\<close> and no slot that throws, the input
  \<^verbatim>\<open><div><foo><bar>x</bar></foo></div>\<close> comes out as \<^verbatim>\<open><div><bar>x</bar></div>\<close>:
  \<open>foo\<close> is unwrapped, its child \<open>bar\<close> takes its place, and the loop over the children of
  \<open>div\<close> goes on with the sibling it had read before (there is none), so \<open>bar\<close> is never
  walked although \<open>bar\<close> is not a key of \<open>tags\<close>.
\<close>

theorem unwrap_leaves_disallowed_element:
  "sanitizeFragment [Element ''div'' [] [Element ''foo'' [] [Element ''bar'' [] [Text ''x'']]]]
     unwrapPolicy
   = Inr (Some [Element ''div'' [] [Element ''bar'' [] [Text ''x'']]])
   \<and> tags unwrapPolicy ''bar'' = None"
  by code_simp

text \<open>
  C3 (limit soundness). The claim: after a run that does not throw, no element whose rule
  declares \<open>limits.children\<close> has more children than that. In the run below \<open>div\<close> may
  have one child. It has one, \<open>foo\<close>, when the count is checked; \<open>foo\<close> is then unwrapped
  and leaves its two \<open>p\<close> children in \<open>div\<close>, which ends with two children.
\<close>

theorem unwrap_exceeds_children_limit:
  "sanitizeFragment
     [Element ''div'' [] [Element ''foo'' [] [Element ''p'' [] [], Element ''p'' [] []]]]
     oneChildPolicy
   = Inr (Some [Element ''div'' [] [Element ''p'' [] [], Element ''p'' [] []]])"
  by code_simp

section \<open>Record duplicates\<close>



section \<open>Truthiness guards\<close>

text \<open>
  C5 (\<^verbatim>\<open>applyDefaultValue\<close>). The claim: a rule that has a \<open>defaultValue\<close> has it applied,
  whatever string it holds. The handler tests \<^verbatim>\<open>if (rule.defaultValue)\<close>, and the empty
  string is falsy: with \<^verbatim>\<open>defaultValue: ""\<close> the attribute \<open>alt\<close> of the element below
  is deleted where the claim has it set to the empty string.
\<close>

theorem empty_defaultValue_deletes:
  "handleTagAttributeValueError (''alt'', ''x'')
     \<lparr>tagName = Some ''img'', attribs = [(''alt'', ''x'')], childNodes = ([] :: node list),
      fate = Attached\<rparr>
     altRule (Some applyDefaultValue) None
   = Inr (True, \<lparr>tagName = Some ''img'', attribs = [], childNodes = [], fate = Attached\<rparr>)"
  by code_simp

text \<open>
  C6 (limits that are set). The claim: with \<open>maxLength\<close> set, also to \<open>0\<close>, a longer value
  triggers the \<^verbatim>\<open>valueTooLong\<close> handler, and with \<open>topLevelLimits.children\<close> set, also to
  \<open>0\<close>, a fragment with more roots triggers the \<^verbatim>\<open>tagChildren\<close> handler. Both checks are
  \<^verbatim>\<open>limit && n > limit\<close>, and \<open>0\<close> is falsy. With \<^verbatim>\<open>maxLength: 0\<close> and \<^verbatim>\<open>trimExcess\<close> the
  value \<^verbatim>\<open>abc\<close> is kept as it is (the handler would have cut it to the empty string); with
  \<^verbatim>\<open>topLevelLimits.children: 0\<close> and \<^verbatim>\<open>discardElement\<close> the one root \<open>div\<close> is kept (the
  handler would have reported \<open>False\<close>, and the result would have been the empty string).
\<close>

theorem zero_limits_not_enforced:
  "sanitizeTagAttributeValue (''title'', ''abc'')
     \<lparr>tagName = Some ''div'', attribs = [(''title'', ''abc'')], childNodes = ([] :: node list),
      fate = Attached\<rparr>
     zeroLengthRule (noErrorHandling\<lparr>attributeValueTooLong := Some trimExcess\<rparr>)
   = Inr (True, \<lparr>tagName = Some ''div'', attribs = [(''title'', ''abc'')], childNodes = [],
      fate = Attached\<rparr>)
   \<and> sanitizeFragment [Element ''div'' [] []] zeroChildrenPolicy
   = Inr (Some [Element ''div'' [] []])"
  by code_simp

section \<open>Matchers are tested in a fixed order\<close>

text \<open>
  C7 (matcher evaluation). \<^verbatim>\<open>matchComparator\<close> is a total function that tests, in this
  order: the wildcard \<^verbatim>\<open>"*"\<close> (accepts every value), a function (its result), a regular
  expression (its \<^verbatim>\<open>test\<close>), a string (equality), an array (membership), \<^verbatim>\<open>true\<close> (the
  value is empty), \<^verbatim>\<open>false\<close> (the value is not empty); anything else matches nothing.
  Since the wildcard comes before string equality, the string matcher \<^verbatim>\<open>"*"\<close> accepts
  every value and not only the value \<^verbatim>\<open>"*"\<close>.
\<close>

theorem matchComparator_order:
  "matchComparator (CString ''*'') v
   \<and> matchComparator (CFunction f) v = f v
   \<and> matchComparator (CRegExp r) v = r v
   \<and> matchComparator (CString s) v = (s = ''*'' \<or> v = s)
   \<and> matchComparator (CArray xs) v = (v \<in> set xs)
   \<and> matchComparator (CBoolean True) v = (v = [])
   \<and> matchComparator (CBoolean False) v = (v \<noteq> [])
   \<and> \<not> matchComparator (COther b) v"
  by (auto simp: matchComparator_def)

theorem matchComparator_order_witness:
  "matchComparator (CString ''*'') ''anything''
   \<and> \<not> matchComparator (CString ''yes'') ''no''
   \<and> matchComparator (CArray [''a'', ''b'']) ''b''
   \<and> \<not> matchComparator (CBoolean True) ''x''"
  using matchComparator_order [of "''anything''" "\<lambda>v. True" "\<lambda>v. True" "''yes''" "[]" True]
    matchComparator_order [of "''no''" "\<lambda>v. True" "\<lambda>v. True" "''yes''" "[]" True]
    matchComparator_order [of "''b''" "\<lambda>v. True" "\<lambda>v. True" "''yes''" "[''a'', ''b'']" True]
    matchComparator_order [of "''x''" "\<lambda>v. True" "\<lambda>v. True" "''yes''" "[]" True]
  by simp

section \<open>\<^verbatim>\<open>parseRecord\<close>\<close>

lemma trim_Nil [simp]: "trim [] = []"
  by (simp add: trim_def)

lemma dropWhile_self: "xs = [] \<or> \<not> P (hd xs) \<Longrightarrow> dropWhile P xs = xs"
  by (cases xs) auto

lemma trim_fixed:
  assumes "t = [] \<or> (\<not> isWhiteSpace (hd t) \<and> \<not> isWhiteSpace (last t))"
  shows "trim t = t"
proof (cases "t = []")
  case True
  then show ?thesis by simp
next
  case False
  with assms have h: "\<not> isWhiteSpace (hd t)" and l: "\<not> isWhiteSpace (last t)" by auto
  have 1: "dropWhile isWhiteSpace t = t" using h by (simp add: dropWhile_self)
  have "hd (rev t) = last t" using False by (simp add: hd_rev)
  then have 2: "dropWhile isWhiteSpace (rev t) = rev t" using l by (simp add: dropWhile_self)
  show ?thesis by (simp add: trim_def 1 2)
qed

lemma trim_edges:
  "trim s = [] \<or> (\<not> isWhiteSpace (hd (trim s)) \<and> \<not> isWhiteSpace (last (trim s)))"
proof (cases "trim s = []")
  case True
  then show ?thesis by simp
next
  case False
  let ?a = "dropWhile isWhiteSpace s"
  let ?b = "dropWhile isWhiteSpace (rev ?a)"
  have b: "?b \<noteq> []" using False by (simp add: trim_def)
  then have a: "?a \<noteq> []" by (cases "?a = []") simp_all
  have hb: "\<not> isWhiteSpace (hd ?b)" using b by (rule hd_dropWhile)
  have ha: "\<not> isWhiteSpace (hd ?a)" using a by (rule hd_dropWhile)
  have "rev ?a = takeWhile isWhiteSpace (rev ?a) @ ?b" by simp
  then have "?a = rev ?b @ rev (takeWhile isWhiteSpace (rev ?a))"
    by (metis rev_append rev_rev_ident)
  then have "hd ?a = hd (rev ?b)" using b by (metis hd_append2 rev_is_Nil_conv)
  then have "\<not> isWhiteSpace (hd (trim s))" using ha by (simp add: trim_def)
  moreover have "\<not> isWhiteSpace (last (trim s))" using hb b by (simp add: trim_def last_rev)
  ultimately show ?thesis by simp
qed

lemma trim_trim [simp]: "trim (trim s) = trim s"
  by (rule trim_fixed) (rule trim_edges)

lemma parseRecordLoop_eq:
  "parseRecordLoop pairSep es out = out @ map (pairOf pairSep) (filter (keeps pairSep) es)"
proof (induction es arbitrary: out)
  case Nil
  then show ?case by simp
next
  case (Cons e es)
  show ?case
  proof (cases "length (split e pairSep) = 2")
    case False
    then have "\<not> keeps pairSep e"
      by (auto simp: keeps_def split: list.splits)
    with False show ?thesis by (simp add: Cons.IH)
  next
    case True
    then obtain k v where kv: "split e pairSep = [k, v]"
      by (auto simp: length_Suc_conv numeral_2_eq_2)
    then show ?thesis
      by (simp add: Cons.IH keeps_def pairOf_def Let_def)
  qed
qed

lemma parseRecord_eq:
  "parseRecord input entrySep pairSep
     = map (pairOf pairSep) (filter (keeps pairSep)
         (filter (\<lambda>s. s \<noteq> []) (map trim (split (trim input) entrySep))))"
proof (cases "trim input = []")
  case True
  then show ?thesis
    by (auto simp: parseRecord_def split_def)
next
  case False
  then show ?thesis
    by (simp add: parseRecord_def parseRecordLoop_eq Let_def)
qed

lemma splitFrom_not_Nil: "splitFrom sep acc s \<noteq> []"
  by (induction sep acc s rule: splitFrom.induct) auto

lemma splitFrom_occurrence:
  assumes "sep \<noteq> []"
  shows "\<exists>first m. splitFrom sep acc (a @ sep @ r) = first # splitFrom sep [] (m @ r)"
proof (induction a arbitrary: acc)
  case Nil
  obtain c cs where sep: "sep = c # cs" using assms by (cases sep) auto
  have "splitFrom sep acc (sep @ r) = acc # splitFrom sep [] ([] @ r)"
    unfolding sep by simp
  then show ?case by (metis append_Nil)
next
  case (Cons x a)
  show ?case
  proof (cases "prefix sep (x # a @ sep @ r)")
    case True
    have len: "length sep \<le> length (x # a @ sep @ r)" by simp
    have "drop (length sep) ((x # a @ sep) @ r) = drop (length sep) (x # a @ sep) @ r"
      by (simp del: append_Cons append_assoc)
    then have "drop (length sep) (x # a @ sep @ r) = drop (length sep) (x # a @ sep) @ r"
      by simp
    moreover have "splitFrom sep acc (x # a @ sep @ r)
        = acc # splitFrom sep [] (drop (length sep) (x # a @ sep @ r))"
      using True assms by simp
    ultimately show ?thesis by (metis append_Cons)
  next
    case False
    then have "splitFrom sep acc ((x # a) @ sep @ r) = splitFrom sep (acc @ [x]) (a @ sep @ r)"
      by simp
    then show ?thesis using Cons.IH by metis
  qed
qed

lemma split_twice_length:
  assumes "sep \<noteq> []"
  shows "length (split (a @ sep @ b @ sep @ c) sep) \<ge> 3"
proof -
  obtain f1 m1 where 1: "splitFrom sep [] (a @ sep @ (b @ sep @ c)) = f1 # splitFrom sep [] (m1 @ (b @ sep @ c))"
    using splitFrom_occurrence[OF assms] by blast
  obtain f2 m2 where 2: "splitFrom sep [] ((m1 @ b) @ sep @ c) = f2 # splitFrom sep [] (m2 @ c)"
    using splitFrom_occurrence[OF assms] by blast
  have "splitFrom sep [] (m2 @ c) \<noteq> []" by (rule splitFrom_not_Nil)
  then have "length (splitFrom sep [] (m2 @ c)) \<ge> 1" by (cases "splitFrom sep [] (m2 @ c)") auto
  with 1 2 show ?thesis using assms by (simp add: split_def)
qed

lemma twice_not_kept:
  assumes "pairSep \<noteq> []"
  shows "\<not> keeps pairSep (a @ pairSep @ b @ pairSep @ c)"
  using split_twice_length[OF assms, of a b c]
  by (auto simp: keeps_def split: list.splits)

lemma keeps_pairOf:
  assumes "keeps pairSep e"
  shows "fst (pairOf pairSep e) \<noteq> [] \<and> snd (pairOf pairSep e) \<noteq> []
    \<and> trim (fst (pairOf pairSep e)) = fst (pairOf pairSep e)
    \<and> trim (snd (pairOf pairSep e)) = snd (pairOf pairSep e)"
  using assms by (auto simp: keeps_def pairOf_def split: list.splits)

text \<open>
  C8 (\<^verbatim>\<open>parseRecord\<close>). The claim: the entries are the pieces of the trimmed input between
  entry separators, and an entry is kept when it splits on the pair separator into exactly
  two parts that are non-empty after trimming. With the entry separator \<^verbatim>\<open>","\<close> and the
  pair separator \<^verbatim>\<open>" "\<close>, the second piece of \<^verbatim>\<open>"a.png 1x, b.png 2x"\<close> is
  \<^verbatim>\<open>" b.png 2x"\<close>, which has the pair separator twice and splits into three parts; the
  code trims the piece first and keeps its pair.
\<close>

theorem parseRecord_trims_entries:
  "parseRecord ''a.png 1x, b.png 2x'' '','' '' '' = [(''a.png'', ''1x''), (''b.png'', ''2x'')]
   \<and> describedRecord ''a.png 1x, b.png 2x'' '','' '' '' = [(''a.png'', ''1x'')]
   \<and> parseRecord ''a.png 1x, b.png 2x'' '','' '' ''
       \<noteq> describedRecord ''a.png 1x, b.png 2x'' '','' '' ''"
  by code_simp

text \<open>
  C8, as amended. For every input and separators, \<^verbatim>\<open>parseRecord\<close> trims the input, splits
  it on the entry separator, trims each piece and drops the pieces that are then empty, and
  returns, in input order and without removing pairs of equal keys, the pairs of exactly
  those trimmed entries that split on the pair separator into exactly two parts that are
  non-empty after trimming. A blank input gives the empty list; every returned key and
  value is non-empty and trimmed; a trimmed entry with two occurrences of the pair
  separator leaves nothing in the result. When every piece is non-empty and has no white
  space at its ends, the result is the one of the description.
\<close>

theorem parseRecord_correct:
  "parseRecord input entrySep pairSep
     = map (pairOf pairSep) (filter (keeps pairSep)
         (filter (\<lambda>e. e \<noteq> []) (map trim (split (trim input) entrySep))))
   \<and> (trim input = [] \<longrightarrow> parseRecord input entrySep pairSep = [])
   \<and> (\<forall>(k, v) \<in> set (parseRecord input entrySep pairSep).
         k \<noteq> [] \<and> v \<noteq> [] \<and> trim k = k \<and> trim v = v)
   \<and> (pairSep \<noteq> []
        \<and> filter (\<lambda>e. e \<noteq> []) (map trim (split (trim input) entrySep))
            = xs @ (a @ pairSep @ b @ pairSep @ c) # ys
      \<longrightarrow> parseRecord input entrySep pairSep
          = map (pairOf pairSep) (filter (keeps pairSep) xs)
            @ map (pairOf pairSep) (filter (keeps pairSep) ys))
   \<and> (list_all (\<lambda>e. e \<noteq> [] \<and> trim e = e) (split (trim input) entrySep)
      \<longrightarrow> parseRecord input entrySep pairSep = describedRecord input entrySep pairSep)"
proof -
  let ?entries = "filter (\<lambda>e. e \<noteq> []) (map trim (split (trim input) entrySep))"
  have blank: "trim input = [] \<longrightarrow> parseRecord input entrySep pairSep = []"
    by (simp add: parseRecord_def)
  have parts: "\<forall>(k, v) \<in> set (parseRecord input entrySep pairSep).
      k \<noteq> [] \<and> v \<noteq> [] \<and> trim k = k \<and> trim v = v"
  proof (clarify)
    fix k v
    assume "(k, v) \<in> set (parseRecord input entrySep pairSep)"
    then obtain e where e: "keeps pairSep e" and kv: "(k, v) = pairOf pairSep e"
      by (auto simp: parseRecord_eq)
    from keeps_pairOf [OF e] kv [symmetric]
    show "k \<noteq> [] \<and> v \<noteq> [] \<and> trim k = k \<and> trim v = v" by simp
  qed
  have twice: "pairSep \<noteq> [] \<and> ?entries = xs @ (a @ pairSep @ b @ pairSep @ c) # ys
      \<longrightarrow> parseRecord input entrySep pairSep
          = map (pairOf pairSep) (filter (keeps pairSep) xs)
            @ map (pairOf pairSep) (filter (keeps pairSep) ys)"
  proof
    assume h: "pairSep \<noteq> [] \<and> ?entries = xs @ (a @ pairSep @ b @ pairSep @ c) # ys"
    then have "\<not> keeps pairSep (a @ pairSep @ b @ pairSep @ c)" by (simp add: twice_not_kept)
    with h show "parseRecord input entrySep pairSep
        = map (pairOf pairSep) (filter (keeps pairSep) xs)
          @ map (pairOf pairSep) (filter (keeps pairSep) ys)"
      by (simp add: parseRecord_eq)
  qed
  have described: "list_all (\<lambda>e. e \<noteq> [] \<and> trim e = e) (split (trim input) entrySep)
      \<longrightarrow> parseRecord input entrySep pairSep = describedRecord input entrySep pairSep"
  proof
    assume h: "list_all (\<lambda>e. e \<noteq> [] \<and> trim e = e) (split (trim input) entrySep)"
    then have "map trim (split (trim input) entrySep) = split (trim input) entrySep"
      by (intro map_idI) (simp add: list_all_iff)
    moreover from h have "filter (\<lambda>e. e \<noteq> []) (split (trim input) entrySep)
        = split (trim input) entrySep"
      by (simp add: filter_id_conv list_all_iff)
    ultimately have eq: "?entries = split (trim input) entrySep" by simp
    show "parseRecord input entrySep pairSep = describedRecord input entrySep pairSep"
    proof (cases "trim input = []")
      case True
      with blank show ?thesis by (simp add: describedRecord_def)
    next
      case False
      have "parseRecord input entrySep pairSep
          = map (pairOf pairSep) (filter (keeps pairSep) ?entries)"
        by (rule parseRecord_eq)
      with eq False show ?thesis by (simp add: describedRecord_def)
    qed
  qed
  from parseRecord_eq blank parts twice described show ?thesis by (intro conjI)
qed

theorem parseRecord_correct_witness:
  "parseRecord ''a:1; y::z ; a:2 '' '';'' '':'' = [(''a'', ''1''), (''a'', ''2'')]
   \<and> parseRecord ''   '' '';'' '':'' = []
   \<and> parseRecord ''a:1;b:2'' '';'' '':'' = describedRecord ''a:1;b:2'' '';'' '':''"
proof -
  note t1 = parseRecord_correct
    [of "''a:1; y::z ; a:2 ''" "'';''" "'':''" "[''a:1'']" "''y''" "[]" "''z''" "[''a:2'']"]
  note t2 = parseRecord_correct [of "''   ''" "'';''" "'':''"]
  note t3 = parseRecord_correct [of "''a:1;b:2''" "'';''" "'':''"]
  have e1: "'':'' \<noteq> []
      \<and> filter (\<lambda>e. e \<noteq> []) (map trim (split (trim ''a:1; y::z ; a:2 '') '';''))
          = [''a:1''] @ (''y'' @ '':'' @ [] @ '':'' @ ''z'') # [''a:2'']"
    by code_simp
  have r1: "map (pairOf '':'') (filter (keeps '':'') [''a:1''])
      @ map (pairOf '':'') (filter (keeps '':'') [''a:2'']) = [(''a'', ''1''), (''a'', ''2'')]"
    by code_simp
  have 1: "parseRecord ''a:1; y::z ; a:2 '' '';'' '':'' = [(''a'', ''1''), (''a'', ''2'')]"
    using t1 [THEN conjunct2, THEN conjunct2, THEN conjunct2, THEN conjunct1, THEN mp, OF e1] r1
    by simp
  have e2: "trim ''   '' = []" by code_simp
  have 2: "parseRecord ''   '' '';'' '':'' = []"
    using t2 [THEN conjunct2, THEN conjunct1] e2 by (rule mp)
  have e3: "list_all (\<lambda>e. e \<noteq> [] \<and> trim e = e) (split (trim ''a:1;b:2'') '';'')"
    by code_simp
  have 3: "parseRecord ''a:1;b:2'' '';'' '':'' = describedRecord ''a:1;b:2'' '';'' '':''"
    using t3 [THEN conjunct2, THEN conjunct2, THEN conjunct2, THEN conjunct2] e3 by (rule mp)
  from 1 2 3 show ?thesis by (intro conjI)
qed

section \<open>Set and record values are written back\<close>

lemma fromSet_set: "set (fromSet seen xs) = set xs - set seen"
  by (induction seen xs rule: fromSet.induct) auto

lemma fromSet_distinct: "distinct (fromSet seen xs)"
  by (induction seen xs rule: fromSet.induct) (auto simp: fromSet_set)

lemma parseSet_tokens:
  "distinct (parseSet input d) \<and> (\<forall>t \<in> set (parseSet input d). t \<noteq> [] \<and> trim t = t)"
  by (auto simp: parseSet_def Let_def fromSet_distinct fromSet_set)

lemma tooMany_output:
  assumes "handleTagAttributeCollectionValueTooManyError attr el c rule m msg = Inr (c', ok, el')"
  shows "c' = c \<or> c' = slice0 c (maxEntries rule)"
  using assms
  by (auto simp: handleTagAttributeCollectionValueTooManyError_def
      split: option.splits strategy.splits sum.splits)

lemma setValueLoop_output:
  "setValueLoop attr rule eh input index rest out el = Inr (Some out', el')
     \<Longrightarrow> out' = out @ filter (matchComparator (setValues rule)) rest"
proof (induction rest arbitrary: index out el)
  case Nil
  then show ?case by simp
next
  case (Cons val rest)
  show ?case
  proof (cases "matchComparator (setValues rule) val")
    case True
    with Cons.prems have "setValueLoop attr rule eh input (index + 1) rest (out @ [val]) el
        = Inr (Some out', el')" by simp
    from Cons.IH [OF this] True show ?thesis by simp
  next
    case False
    with Cons.prems obtain el1 where
      "setValueLoop attr rule eh input (index + 1) rest out el1 = Inr (Some out', el')"
      by (auto split: sum.splits if_splits)
    from Cons.IH [OF this] False show ?thesis by simp
  qed
qed

lemma setValueLoop_all_match:
  "list_all (matchComparator (setValues rule)) rest
     \<Longrightarrow> setValueLoop attr rule eh input index rest out el = Inr (Some (out @ rest), el)"
  by (induction rest arbitrary: index out) auto

lemma map_of_update_same: "map_of (AList.update k v al) k = Some v"
  by (simp add: update_conv')

lemma sanitizeSet_rewrites:
  assumes "sanitizeTagAttributeSetValue attr el rule eh = Inr (True, el')"
  shows "\<exists>toks. (toks = parseSet (snd attr) (delimiter rule)
            \<or> toks = slice0 (parseSet (snd attr) (delimiter rule)) (maxEntries rule))
      \<and> map_of (attribs el') (fst attr)
          = Some (join (delimiter rule) (filter (matchComparator (setValues rule)) toks))"
proof -
  let ?input = "parseSet (snd attr) (delimiter rule)"
  let ?first = "if exceeds (maxEntries rule) (length ?input)
      then handleTagAttributeCollectionValueTooManyError attr el ?input rule
             (attributeCollectionValueTooMany eh) None
      else Inr (?input, True, el)"
  from assms obtain input1 el1 out el2 where
    first: "?first = Inr (input1, True, el1)"
    and loop: "setValueLoop attr rule eh input1 0 input1 [] el1 = Inr (Some out, el2)"
    and el': "el' = el2\<lparr>attribs := AList.update (fst attr) (join (delimiter rule) out) (attribs el2)\<rparr>"
    unfolding sanitizeTagAttributeSetValue_def Let_def
    by (auto split: sum.splits prod.splits if_splits option.splits)
  have toks: "input1 = ?input \<or> input1 = slice0 ?input (maxEntries rule)"
  proof (cases "exceeds (maxEntries rule) (length ?input)")
    case True
    with first have "handleTagAttributeCollectionValueTooManyError attr el ?input rule
        (attributeCollectionValueTooMany eh) None = Inr (input1, True, el1)" by simp
    then show ?thesis by (rule tooMany_output)
  next
    case False
    with first show ?thesis by simp
  qed
  have "out = filter (matchComparator (setValues rule)) input1"
    using setValueLoop_output [OF loop] by simp
  with el' toks show ?thesis by (auto simp: map_of_update_same)
qed

lemma sanitizeSet_no_violation:
  assumes "\<not> exceeds (maxEntries rule) (length (parseSet (snd attr) (delimiter rule)))"
    and "list_all (matchComparator (setValues rule)) (parseSet (snd attr) (delimiter rule))"
  shows "sanitizeTagAttributeSetValue attr el rule eh
    = Inr (True, el\<lparr>attribs := AList.update (fst attr)
        (join (delimiter rule) (parseSet (snd attr) (delimiter rule))) (attribs el)\<rparr>)"
  using assms by (simp add: sanitizeTagAttributeSetValue_def Let_def setValueLoop_all_match)

lemma duplicate_output:
  assumes "handleTagAttributeRecordValueDuplicateError attr el key out rule m msg
      = Inr (out1, g, l, el1)"
  shows "subseq out1 out"
  using assms
  by (auto simp: handleTagAttributeRecordValueDuplicateError_def
      split: option.splits strategy.splits sum.splits)

lemma recordValueLoop_output:
  "recordValueLoop attr rule eh input index rest seen out el = Inr (Some out', el')
     \<Longrightarrow> subseq out' (out @ filter (acceptedPair rule) rest)"
proof (induction rest arbitrary: index seen out el)
  case Nil
  then show ?case by simp
next
  case (Cons p rest)
  obtain key val where p: "p = (key, val)" by (cases p)
  let ?dup = "if key \<in> seen
      then handleTagAttributeRecordValueDuplicateError attr el key out rule
             (attributeRecordValueDuplicate eh) None
      else Inr (out, True, True, el)"
  from Cons.prems obtain out1 l el1 where dup: "?dup = Inr (out1, True, l, el1)"
    unfolding p by (auto simp: Let_def split: sum.splits prod.splits if_splits)
  have sub1: "subseq out1 out"
  proof (cases "key \<in> seen")
    case True
    with dup have "handleTagAttributeRecordValueDuplicateError attr el key out rule
        (attributeRecordValueDuplicate eh) None = Inr (out1, True, l, el1)" by simp
    then show ?thesis by (rule duplicate_output)
  next
    case False
    with dup show ?thesis by simp
  qed
  show ?case
  proof (cases "l \<and> acceptedPair rule p")
    case True
    with Cons.prems dup have
      "recordValueLoop attr rule eh input (index + 1) rest (insert key seen)
         (out1 @ [(key, val)]) el1 = Inr (Some out', el')"
      unfolding p
      by (auto simp: Let_def acceptedPair_def accepted_def split: option.splits if_splits)
    from Cons.IH [OF this] have "subseq out' ((out1 @ [p]) @ filter (acceptedPair rule) rest)"
      by (simp add: p)
    moreover have "subseq ((out1 @ [p]) @ filter (acceptedPair rule) rest)
        ((out @ [p]) @ filter (acceptedPair rule) rest)"
      using sub1 by (intro list_emb_append_mono) auto
    ultimately show ?thesis using True by (auto intro: subseq_order.order_trans)
  next
    case False
    with Cons.prems dup obtain el2 where
      "recordValueLoop attr rule eh input (index + 1) rest seen out1 el2 = Inr (Some out', el')"
      unfolding p
      by (auto simp: Let_def acceptedPair_def accepted_def
          split: option.splits if_splits sum.splits prod.splits)
    from Cons.IH [OF this] have "subseq out' (out1 @ filter (acceptedPair rule) rest)" .
    moreover have "subseq (out1 @ filter (acceptedPair rule) rest)
        (out @ filter (acceptedPair rule) (p # rest))"
      using sub1 by (intro list_emb_append_mono) (auto intro: subseq_Cons')
    ultimately show ?thesis by (auto intro: subseq_order.order_trans)
  qed
qed

lemma recordValueLoop_all_accepted:
  "distinct (map fst rest) \<Longrightarrow> fst ` set rest \<inter> seen = {}
     \<Longrightarrow> list_all (acceptedPair rule) rest
     \<Longrightarrow> recordValueLoop attr rule eh input index rest seen out el = Inr (Some (out @ rest), el)"
proof (induction rest arbitrary: index seen out)
  case Nil
  then show ?case by simp
next
  case (Cons p rest)
  obtain key val where p: "p = (key, val)" by (cases p)
  from Cons.prems have fresh: "key \<notin> seen" and acc: "accepted rule key val"
    by (auto simp: p acceptedPair_def)
  from Cons.prems have "distinct (map fst rest)" "fst ` set rest \<inter> insert key seen = {}"
    "list_all (acceptedPair rule) rest"
    by (auto simp: p)
  from Cons.IH [OF this] fresh acc show ?case
    by (auto simp: p Let_def accepted_def split: option.splits)
qed

lemma sanitizeRecord_rewrites:
  assumes "sanitizeTagAttributeRecordValue attr el rule eh = Inr (True, el')"
  shows "\<exists>out. subseq out (filter (acceptedPair rule)
              (parseRecord (snd attr) (entrySeparator rule) (keyValueSeparator rule)))
      \<and> map_of (attribs el') (fst attr)
          = Some (join (entrySeparator rule)
              (map (\<lambda>(key, val). key @ keyValueSeparator rule @ val) out))"
proof -
  let ?input = "parseRecord (snd attr) (entrySeparator rule) (keyValueSeparator rule)"
  let ?first = "if exceeds (maxEntries rule) (length ?input)
      then handleTagAttributeCollectionValueTooManyError attr el ?input rule
             (attributeCollectionValueTooMany eh) None
      else Inr (?input, True, el)"
  from assms obtain input1 el1 out el2 where
    first: "?first = Inr (input1, True, el1)"
    and loop: "recordValueLoop attr rule eh input1 0 input1 {} [] el1 = Inr (Some out, el2)"
    and el': "el' = el2\<lparr>attribs := AList.update (fst attr)
        (join (entrySeparator rule)
           (map (\<lambda>(key, val). key @ keyValueSeparator rule @ val) out)) (attribs el2)\<rparr>"
    unfolding sanitizeTagAttributeRecordValue_def Let_def
    by (auto split: sum.splits prod.splits if_splits option.splits)
  have toks: "input1 = ?input \<or> input1 = slice0 ?input (maxEntries rule)"
  proof (cases "exceeds (maxEntries rule) (length ?input)")
    case True
    with first have "handleTagAttributeCollectionValueTooManyError attr el ?input rule
        (attributeCollectionValueTooMany eh) None = Inr (input1, True, el1)" by simp
    then show ?thesis by (rule tooMany_output)
  next
    case False
    with first show ?thesis by simp
  qed
  have "subseq input1 ?input"
    using toks by (auto simp: slice0_def split: option.splits)
  then have "subseq (filter (acceptedPair rule) input1) (filter (acceptedPair rule) ?input)"
    by (rule subseq_filter)
  moreover have "subseq out (filter (acceptedPair rule) input1)"
    using recordValueLoop_output [OF loop] by simp
  ultimately have "subseq out (filter (acceptedPair rule) ?input)"
    by (rule subseq_order.order_trans [rotated])
  with el' show ?thesis by (auto simp: map_of_update_same)
qed

lemma sanitizeRecord_no_violation:
  assumes "\<not> exceeds (maxEntries rule)
        (length (parseRecord (snd attr) (entrySeparator rule) (keyValueSeparator rule)))"
    and "distinct (map fst (parseRecord (snd attr) (entrySeparator rule) (keyValueSeparator rule)))"
    and "list_all (acceptedPair rule)
        (parseRecord (snd attr) (entrySeparator rule) (keyValueSeparator rule))"
  shows "sanitizeTagAttributeRecordValue attr el rule eh
    = Inr (True, el\<lparr>attribs := AList.update (fst attr)
        (join (entrySeparator rule)
           (map (\<lambda>(key, val). key @ keyValueSeparator rule @ val)
              (parseRecord (snd attr) (entrySeparator rule) (keyValueSeparator rule))))
        (attribs el)\<rparr>)"
  using assms
  by (simp add: sanitizeTagAttributeRecordValue_def Let_def recordValueLoop_all_accepted)

text \<open>
  C10 (set and record values are rewritten). Whenever \<^verbatim>\<open>sanitizeTagAttributeSetValue\<close>
  returns \<open>True\<close>, the attribute holds the join of the tokens that survived: the parsed
  tokens (or their first \<open>maxEntries\<close>) that match the rule. Whenever
  \<^verbatim>\<open>sanitizeTagAttributeRecordValue\<close> returns \<open>True\<close>, the attribute holds the join of
  surviving pairs, a subsequence of the parsed pairs accepted by their matchers. This is
  so with and without violations: when nothing is violated the attribute is still replaced
  by the join of the parse of its raw value. The parsed tokens of a set are trimmed,
  non-empty and distinct, and the parsed pairs of a record are the well-formed entries
  only, so whitespace around tokens, empty tokens, repeated set entries and malformed
  record entries are gone from the value although every token matches.
\<close>

theorem collections_rewritten:
  "(sanitizeTagAttributeSetValue attr el rule eh = Inr (True, el') \<longrightarrow>
      (\<exists>toks. (toks = parseSet (snd attr) (delimiter rule)
                \<or> toks = slice0 (parseSet (snd attr) (delimiter rule)) (maxEntries rule))
         \<and> map_of (attribs el') (fst attr)
             = Some (join (delimiter rule) (filter (matchComparator (setValues rule)) toks))))
   \<and> (sanitizeTagAttributeRecordValue attr el rule eh = Inr (True, el') \<longrightarrow>
      (\<exists>out. subseq out (filter (acceptedPair rule)
                 (parseRecord (snd attr) (entrySeparator rule) (keyValueSeparator rule)))
         \<and> map_of (attribs el') (fst attr)
             = Some (join (entrySeparator rule)
                 (map (\<lambda>(key, val). key @ keyValueSeparator rule @ val) out))))
   \<and> (\<not> exceeds (maxEntries rule) (length (parseSet (snd attr) (delimiter rule)))
        \<and> list_all (matchComparator (setValues rule)) (parseSet (snd attr) (delimiter rule))
      \<longrightarrow> sanitizeTagAttributeSetValue attr el rule eh
          = Inr (True, el\<lparr>attribs := AList.update (fst attr)
              (join (delimiter rule) (parseSet (snd attr) (delimiter rule))) (attribs el)\<rparr>))
   \<and> (\<not> exceeds (maxEntries rule)
          (length (parseRecord (snd attr) (entrySeparator rule) (keyValueSeparator rule)))
        \<and> distinct (map fst
          (parseRecord (snd attr) (entrySeparator rule) (keyValueSeparator rule)))
        \<and> list_all (acceptedPair rule)
          (parseRecord (snd attr) (entrySeparator rule) (keyValueSeparator rule))
      \<longrightarrow> sanitizeTagAttributeRecordValue attr el rule eh
          = Inr (True, el\<lparr>attribs := AList.update (fst attr)
              (join (entrySeparator rule)
                 (map (\<lambda>(key, val). key @ keyValueSeparator rule @ val)
                    (parseRecord (snd attr) (entrySeparator rule) (keyValueSeparator rule))))
              (attribs el)\<rparr>))
   \<and> distinct (parseSet (snd attr) (delimiter rule))
   \<and> (\<forall>t \<in> set (parseSet (snd attr) (delimiter rule)). t \<noteq> [] \<and> trim t = t)"
  using sanitizeSet_rewrites [of attr el rule eh el']
    sanitizeRecord_rewrites [of attr el rule eh el']
    sanitizeSet_no_violation [of rule attr el eh]
    sanitizeRecord_no_violation [of rule attr el eh]
    parseSet_tokens [of "snd attr" "delimiter rule"]
  by blast

theorem collections_rewritten_witness:
  "sanitizeTagAttributeSetValue (''class'', '' a  b a '') classEl classRule noErrorHandling
     = Inr (True, classEl\<lparr>attribs := [(''class'', ''a b'')]\<rparr>)
   \<and> sanitizeTagAttributeRecordValue (''style'', '' a : 1 ;; b:2; c '') pairsEl pairsRule
       noErrorHandling
     = Inr (True, pairsEl\<lparr>attribs := [(''style'', ''a:1;b:2'')]\<rparr>)
   \<and> sanitizeTagAttributeSetValue (''class'', ''a x b'') classEl
       (setRule '' '' (CArray [''a'', ''b'']))
       (noErrorHandling\<lparr>attributeSetValue := Some dropValue\<rparr>)
     = Inr (True, classEl\<lparr>attribs := [(''class'', ''a b'')]\<rparr>)"
proof -
  have 3: "sanitizeTagAttributeSetValue (''class'', ''a x b'') classEl
       (setRule '' '' (CArray [''a'', ''b'']))
       (noErrorHandling\<lparr>attributeSetValue := Some dropValue\<rparr>)
     = Inr (True, classEl\<lparr>attribs := [(''class'', ''a b'')]\<rparr>)"
    by code_simp
  note s = collections_rewritten [of "(''class'', '' a  b a '')" classEl classRule
      noErrorHandling classEl]
  note r = collections_rewritten [of "(''style'', '' a : 1 ;; b:2; c '')" pairsEl pairsRule
      noErrorHandling pairsEl]
  have toks: "parseSet '' a  b a '' '' '' = [''a'', ''b'']"
    by code_simp
  have pairs: "parseRecord '' a : 1 ;; b:2; c '' '';'' '':'' = [(''a'', ''1''), (''b'', ''2'')]"
    by code_simp
  have "sanitizeTagAttributeSetValue (''class'', '' a  b a '') classEl classRule noErrorHandling
      = Inr (True, classEl\<lparr>attribs := AList.update (fst (''class'', '' a  b a ''))
          (join (delimiter classRule)
             (parseSet (snd (''class'', '' a  b a '')) (delimiter classRule)))
          (attribs classEl)\<rparr>)"
    using s [THEN conjunct2, THEN conjunct2, THEN conjunct1]
    by (rule mp)
      (simp add: toks classRule_def setRule_def simpleRule_def exceeds_def matchComparator_def)
  then have 1: "sanitizeTagAttributeSetValue (''class'', '' a  b a '') classEl classRule
      noErrorHandling = Inr (True, classEl\<lparr>attribs := [(''class'', ''a b'')]\<rparr>)"
    by (simp add: toks classRule_def setRule_def simpleRule_def classEl_def)
  have "sanitizeTagAttributeRecordValue (''style'', '' a : 1 ;; b:2; c '') pairsEl pairsRule
      noErrorHandling
      = Inr (True, pairsEl\<lparr>attribs := AList.update (fst (''style'', '' a : 1 ;; b:2; c ''))
          (join (entrySeparator pairsRule)
             (map (\<lambda>(key, val). key @ keyValueSeparator pairsRule @ val)
                (parseRecord (snd (''style'', '' a : 1 ;; b:2; c '')) (entrySeparator pairsRule)
                   (keyValueSeparator pairsRule))))
          (attribs pairsEl)\<rparr>)"
    using r [THEN conjunct2, THEN conjunct2, THEN conjunct2, THEN conjunct1]
    by (rule mp)
      (simp add: pairs pairsRule_def recordRule_def simpleRule_def exceeds_def
        matchComparator_def acceptedPair_def accepted_def)
  then have 2: "sanitizeTagAttributeRecordValue (''style'', '' a : 1 ;; b:2; c '') pairsEl
      pairsRule noErrorHandling = Inr (True, pairsEl\<lparr>attribs := [(''style'', ''a:1;b:2'')]\<rparr>)"
    by (simp add: pairs pairsRule_def recordRule_def simpleRule_def pairsEl_def)
  from 1 2 3 show ?thesis by (intro conjI)
qed

section \<open>Splitting and joining\<close>



























section \<open>Values in normal form\<close>

text \<open>A handler for one attribute leaves the others.\<close>

lemma elsewhere_refl [simp]: "elsewhere k el el"
  by (simp add: elsewhere_def)


lemma elsewhere_update [simp]: "elsewhere k el (el\<lparr>attribs := AList.update k v (attribs el)\<rparr>)"
  by (simp add: elsewhere_def update_conv')

lemma elsewhere_delete [simp]: "elsewhere k el (el\<lparr>attribs := AList.delete k (attribs el)\<rparr>)"
  by (simp add: elsewhere_def delete_conv')

lemma elsewhere_fate [simp]: "elsewhere k el (el\<lparr>fate := f\<rparr>)"
  by (simp add: elsewhere_def)























lemma update_same: "map_of al k = Some v \<Longrightarrow> el\<lparr>attribs := AList.update k v al\<rparr> = el\<lparr>attribs := al\<rparr>"
  by (simp add: update_triv)
































section \<open>Idempotence\<close>















text \<open>
  Under \<open>unwrapPolicy\<close> the second run unwraps what the first has spliced up:
  \<^verbatim>\<open><div><bar>x</bar></div>\<close>, the output of the first run, becomes \<^verbatim>\<open><div>x</div>\<close>.
\<close>

lemma sanitize_twice_differs:
  "sanitizeFragment [Element ''div'' [] [Element ''foo'' [] [Element ''bar'' [] [Text ''x'']]]]
     unwrapPolicy
   = Inr (Some [Element ''div'' [] [Element ''bar'' [] [Text ''x'']]])
   \<and> sanitizeFragment [Element ''div'' [] [Element ''bar'' [] [Text ''x'']]] unwrapPolicy
   = Inr (Some [Element ''div'' [] [Text ''x'']])"
  by code_simp

section \<open>\<^verbatim>\<open>unwrapInParent\<close>\<close>

lemma childRefs_set [simp]:
  "childRefs (setParent s a v b) = childRefs (s b)"
  "childRefs (setPrev s a w b) = childRefs (s b)"
  "childRefs (setNext s a w b) = childRefs (s b)"
  "childRefs (setChildren s a cs b) = (if b = a then cs else childRefs (s b))"
  by (simp_all add: setParent_def setPrev_def setNext_def setChildren_def)

lemma parentNode_set [simp]:
  "parentNode (setParent s a v b) = (if b = a then v else parentNode (s b))"
  "parentNode (setPrev s a w b) = parentNode (s b)"
  "parentNode (setNext s a w b) = parentNode (s b)"
  "parentNode (setChildren s a cs b) = parentNode (s b)"
  by (simp_all add: setParent_def setPrev_def setNext_def setChildren_def)

lemma childRefs_appendChild:
  "childRefs (appendChild s p c q) = (if q = p then childRefs (s p) @ [c] else childRefs (s q))"
  by (simp add: appendChild_def Let_def)

lemma parentNode_appendChild:
  "parentNode (appendChild s p c q) = (if q = c then Some p else parentNode (s q))"
  by (simp add: appendChild_def Let_def)

lemma childRefs_insertBefore:
  "childRefs (insertBefore s p c n q)
     = (if q = p then spliceInsert (childRefs (s p)) (indexOf (childRefs (s p)) n) c
        else childRefs (s q))"
  by (simp add: insertBefore_def Let_def split: option.splits)

lemma parentNode_insertBefore:
  "parentNode (insertBefore s p c n q) = (if q = c then Some p else parentNode (s q))"
  by (simp add: insertBefore_def Let_def split: option.splits)

lemma indexOf_append: "x \<notin> set pre \<Longrightarrow> indexOf (pre @ x # post) x = Some (length pre)"
  by (induction pre) auto

lemma childRefs_detachNode:
  "childRefs (detachNode s e q)
     = (case parentNode (s e) of
          None \<Rightarrow> childRefs (s q)
        | Some p \<Rightarrow> if q = p then spliceRemove (childRefs (s p)) (indexOf (childRefs (s p)) e)
                    else childRefs (s q))"
  by (simp add: detachNode_def Let_def split: option.splits)

lemma parentNode_detachNode:
  "parentNode (detachNode s e q) = (if q = e then None else parentNode (s q))"
  by (simp add: detachNode_def Let_def split: option.splits)

lemma unwrapLoop_others:
  "q \<noteq> p \<Longrightarrow> childRefs (unwrapLoop s p nxt cs q) = childRefs (s q)"
  by (induction cs arbitrary: s)
    (simp_all add: childRefs_insertBefore childRefs_appendChild split: option.splits)

lemma unwrapLoop_parent_other:
  "q \<notin> set cs \<Longrightarrow> parentNode (unwrapLoop s p nxt cs q) = parentNode (s q)"
  by (induction cs arbitrary: s)
    (auto simp: parentNode_insertBefore parentNode_appendChild split: option.splits)

lemma unwrapLoop_parent_moved:
  "c \<in> set cs \<Longrightarrow> parentNode (unwrapLoop s p nxt cs c) = Some p"
proof (induction cs arbitrary: s)
  case Nil
  then show ?case by simp
next
  case (Cons x cs)
  show ?case
  proof (cases "c \<in> set cs")
    case True
    then show ?thesis by (simp add: Cons.IH)
  next
    case False
    with Cons.prems have "c = x" by simp
    with False show ?thesis
      by (simp add: unwrapLoop_parent_other parentNode_insertBefore parentNode_appendChild
          split: option.splits)
  qed
qed

lemma unwrapLoop_append:
  "childRefs (unwrapLoop s p None cs p) = childRefs (s p) @ cs"
  by (induction cs arbitrary: s) (simp_all add: childRefs_appendChild)

lemma unwrapLoop_insert:
  "childRefs (s p) = pre @ y # post \<Longrightarrow> y \<notin> set pre \<Longrightarrow> y \<notin> set cs
     \<Longrightarrow> childRefs (unwrapLoop s p (Some y) cs p) = pre @ cs @ y # post"
proof (induction cs arbitrary: s pre)
  case Nil
  then show ?case by simp
next
  case (Cons c cs)
  have "childRefs (insertBefore s p c y p) = (pre @ [c]) @ y # post"
    using Cons.prems
    by (simp add: childRefs_insertBefore indexOf_append spliceInsert_def spliceStart_def)
  moreover have "y \<notin> set (pre @ [c])" "y \<notin> set cs" using Cons.prems by auto
  ultimately have "childRefs (unwrapLoop (insertBefore s p c y) p (Some y) cs p)
      = (pre @ [c]) @ cs @ y # post"
    by (rule Cons.IH)
  then show ?case by simp
qed

lemma unwrapInParent_main:
  assumes par: "parentNode (s e) = Some p"
    and kids: "childRefs (s p) = xs @ e # ys"
    and dist: "distinct (xs @ e # ys)"
    and ne: "childRefs (s e) \<noteq> []"
    and disj: "set (childRefs (s e)) \<inter> set (xs @ e # ys) = {}"
    and nxt: "nextSibling (s e) = (case ys of [] \<Rightarrow> None | y # rest \<Rightarrow> Some y)"
  shows "childRefs (unwrapInParent s e p) = xs @ childRefs (s e) @ ys"
    and "parentNode (unwrapInParent s e e) = None"
    and "\<forall>c \<in> set (childRefs (s e)). parentNode (unwrapInParent s e c) = Some p"
    and "\<forall>n. n \<noteq> p \<longrightarrow> childRefs (unwrapInParent s e n) = childRefs (s n)"
proof -
  let ?cs = "childRefs (s e)"
  let ?s1 = "unwrapLoop s p (nextSibling (s e)) ?cs"
  have un: "unwrapInParent s e = detachNode ?s1 e"
    using par ne by (simp add: unwrapInParent_def Let_def)
  have e_cs: "e \<notin> set ?cs" using disj by auto
  have e_xs: "e \<notin> set xs" using dist by auto
  have loop: "childRefs (?s1 p) = xs @ e # ?cs @ ys"
  proof (cases ys)
    case Nil
    then show ?thesis using nxt kids by (simp add: unwrapLoop_append)
  next
    case (Cons y rest)
    have "y \<notin> set (xs @ [e])" using dist Cons by auto
    moreover have "y \<notin> set ?cs" using disj Cons by auto
    moreover have "childRefs (s p) = (xs @ [e]) @ y # rest" using kids Cons by simp
    ultimately have "childRefs (unwrapLoop s p (Some y) ?cs p) = (xs @ [e]) @ ?cs @ y # rest"
      by (intro unwrapLoop_insert)
    then show ?thesis using nxt Cons by simp
  qed
  have par1: "parentNode (?s1 e) = Some p"
    using e_cs par by (simp add: unwrapLoop_parent_other)
  show "childRefs (unwrapInParent s e p) = xs @ ?cs @ ys"
    using loop par1 e_xs
    by (simp add: un childRefs_detachNode indexOf_append spliceRemove_def spliceStart_def)
  show "parentNode (unwrapInParent s e e) = None"
    by (simp add: un parentNode_detachNode)
  show "\<forall>c \<in> set ?cs. parentNode (unwrapInParent s e c) = Some p"
    using e_cs by (auto simp: un parentNode_detachNode unwrapLoop_parent_moved)
  show "\<forall>n. n \<noteq> p \<longrightarrow> childRefs (unwrapInParent s e n) = childRefs (s n)"
    using par1 by (simp add: un childRefs_detachNode unwrapLoop_others)
qed

text \<open>
  C9 (unwrap). Let the element \<open>e\<close> have the parent \<open>p\<close>, whose child array is
  \<open>xs @ e # ys\<close> without repetitions, and let \<open>e\<close> have at least one child, none of them a
  child of \<open>p\<close>; let the next-sibling pointer of \<open>e\<close> point to the first of \<open>ys\<close> (or to
  nothing when \<open>ys\<close> is empty). Then after \<^verbatim>\<open>unwrapInParent\<close> the child array of \<open>p\<close> is
  \<open>xs\<close>, the children of \<open>e\<close> in their order, \<open>ys\<close>; \<open>e\<close> has no parent; every moved
  child has the parent \<open>p\<close>; and every node but \<open>p\<close> has the child array it had, so the
  moved children keep their descendants. When \<open>e\<close> has no children or no parent,
  \<^verbatim>\<open>unwrapInParent\<close> is \<^verbatim>\<open>detachNode\<close>, which changes nothing when there is no parent.
\<close>

theorem unwrapInParent_correct:
  "(parentNode (s e) = Some p \<and> childRefs (s p) = xs @ e # ys \<and> distinct (xs @ e # ys)
      \<and> childRefs (s e) \<noteq> [] \<and> set (childRefs (s e)) \<inter> set (xs @ e # ys) = {}
      \<and> nextSibling (s e) = (case ys of [] \<Rightarrow> None | y # rest \<Rightarrow> Some y)
    \<longrightarrow> childRefs (unwrapInParent s e p) = xs @ childRefs (s e) @ ys
      \<and> parentNode (unwrapInParent s e e) = None
      \<and> (\<forall>c \<in> set (childRefs (s e)). parentNode (unwrapInParent s e c) = Some p)
      \<and> (\<forall>n. n \<noteq> p \<longrightarrow> childRefs (unwrapInParent s e n) = childRefs (s n)))
   \<and> (childRefs (s e) = [] \<or> parentNode (s e) = None
    \<longrightarrow> unwrapInParent s e = detachNode s e)
   \<and> (parentNode (s e) = None \<longrightarrow> detachNode s e = s)"
proof -
  have "childRefs (s e) = [] \<or> parentNode (s e) = None \<longrightarrow> unwrapInParent s e = detachNode s e"
    by (auto simp: unwrapInParent_def)
  moreover have "parentNode (s e) = None \<longrightarrow> detachNode s e = s"
    by (simp add: detachNode_def)
  ultimately show ?thesis
    using unwrapInParent_main [of s e p xs ys] by blast
qed

theorem unwrapInParent_correct_witness:
  "childRefs (unwrapInParent sampleStore 2 0) = [1, 4, 5, 3]
   \<and> parentNode (unwrapInParent sampleStore 2 2) = None
   \<and> parentNode (unwrapInParent sampleStore 2 4) = Some 0
   \<and> parentNode (unwrapInParent sampleStore 2 5) = Some 0
   \<and> childRefs (unwrapInParent sampleStore 2 4) = [6]
   \<and> unwrapInParent sampleStore 5 = detachNode sampleStore 5"
proof -
  note t = unwrapInParent_correct [of sampleStore 2 0 "[1]" "[3]"]
  have pre: "parentNode (sampleStore 2) = Some 0 \<and> childRefs (sampleStore 0) = [1] @ 2 # [3]
      \<and> distinct ([1] @ 2 # [3 :: nat])
      \<and> childRefs (sampleStore 2) \<noteq> []
      \<and> set (childRefs (sampleStore 2)) \<inter> set ([1] @ 2 # [3]) = {}
      \<and> nextSibling (sampleStore 2) = (case [3] of [] \<Rightarrow> None | y # rest \<Rightarrow> Some y)"
    by (simp add: sampleStore_def blankNode_def)
  have main: "childRefs (unwrapInParent sampleStore 2 0) = [1] @ childRefs (sampleStore 2) @ [3]
      \<and> parentNode (unwrapInParent sampleStore 2 2) = None
      \<and> (\<forall>c \<in> set (childRefs (sampleStore 2)). parentNode (unwrapInParent sampleStore 2 c) = Some 0)
      \<and> (\<forall>n. n \<noteq> 0 \<longrightarrow> childRefs (unwrapInParent sampleStore 2 n) = childRefs (sampleStore n))"
    using t [THEN conjunct1] pre by (rule mp)
  have kids: "childRefs (sampleStore 2) = [4, 5]" "childRefs (sampleStore 4) = [6]"
    by (simp_all add: sampleStore_def blankNode_def)
  have leaf: "childRefs (sampleStore 5) = [] \<or> parentNode (sampleStore 5) = None"
    by (simp add: sampleStore_def blankNode_def)
  have 5: "unwrapInParent sampleStore 5 = detachNode sampleStore 5"
    using unwrapInParent_correct [of sampleStore 5 0 "[]" "[]", THEN conjunct2, THEN conjunct1] leaf
    by (rule mp)
  from main kids 5 show ?thesis by simp
qed

end
